theory Spec2Isabelle
  imports Main "HOL-Library.Char_ord" "HOL-Library.List_Lexorder" "HOL-Library.Multiset"
begin

section \<open>Data model\<close>

text \<open>
  The Go struct \<^verbatim>\<open>article\<close> (main.go, lines 22-27).  A row of the table
  \<^verbatim>\<open>articles(title, url, date, read)\<close> has the same four columns, so the
  store is a list of such records in insertion (rowid) order.  Strings are byte
  strings; SQLite compares the TEXT values of the \<^verbatim>\<open>date\<close> column bytewise,
  which is the lexicographic order on \<^typ>\<open>string\<close>.
\<close>

record article =
  title :: string
  url :: string
  date :: string
  read :: bool

text \<open>A Go \<^verbatim>\<open>error\<close> value: \<open>None\<close> is \<^verbatim>\<open>nil\<close>, \<open>Some msg\<close> an error with its text.\<close>

type_synonym go_error = "string option"

datatype weekday = Sunday | Monday | Tuesday | Wednesday | Thursday | Friday | Saturday

text \<open>
  What goquery hands to the callback of the inner \<^verbatim>\<open>Each\<close> (lines 168-174): for one
  \<^verbatim>\<open>li\<close> element the \<^verbatim>\<open>href\<close> and \<^verbatim>\<open>title\<close> attributes of its first
  \<^verbatim>\<open>a\<close> (the empty string when absent, the existence flag being dropped) and the
  text of its \<^verbatim>\<open>.date\<close> element.  A document is the list of its
  \<^verbatim>\<open>.article-list\<close> containers, each with its \<^verbatim>\<open>li\<close> descendants.
\<close>

record li =
  href :: string
  a_title :: string
  date_text :: string

record http_response =
  StatusCode :: nat
  Body :: "li list list option"  \<comment> \<open>\<open>None\<close>: goquery cannot read the body\<close>

text \<open>Every effect of a run, in the order the program performs it.\<close>

datatype event =
    HttpGet string
  | HttpPost string string  \<comment> \<open>endpoint, and the value of the \<^verbatim>\<open>text\<close> field of the JSON body\<close>
  | SqlQuery
  | SqlScan
  | SqlBegin
  | SqlPrepare
  | SqlExecInsert string string string  \<comment> \<open>title, url, date\<close>
  | SqlExecUpdate string  \<comment> \<open>url\<close>
  | SqlCommit
  | Println string

text \<open>
  The world a run acts on: the committed contents of the table behind the global
  \<^verbatim>\<open>db\<close> handle, and the effects performed so far.  A run starts after
  \<^verbatim>\<open>init\<close> (lines 46-60) has opened the database and created the table.
\<close>

record world =
  db :: "article list"
  trace :: "event list"

text \<open>
  What a run cannot decide itself.  The answer of the network and of the storage
  engine to a call may depend on the position of the call in the run, given as the
  number of effects performed before it.  \<open>baseURL\<close> is the embedded text after
  \<^verbatim>\<open>strings.TrimSpace\<close> (line 59), \<open>webhookURL\<close> likewise (line 107).
  \<open>url_JoinPath\<close> stands for \<^verbatim>\<open>net/url.JoinPath\<close>.
\<close>

record env =
  now_weekday :: weekday
  baseURL :: string
  webhookURL :: string
  http_Get :: "string \<Rightarrow> http_response \<times> go_error"
  http_Post :: "nat \<Rightarrow> string \<Rightarrow> string \<Rightarrow> nat \<times> go_error"
  url_JoinPath :: "string \<Rightarrow> string \<Rightarrow> string \<times> go_error"
  sql_error :: "nat \<Rightarrow> go_error"

text \<open>
  How a call can end without returning to its caller: \<^verbatim>\<open>log.Fatal\<close> (the message
  is logged and the process exits with status 1) or a run-time panic.
\<close>

datatype abort = Fatal string | Panic string

section \<open>Library functions used by the program\<close>

definition emit :: "event \<Rightarrow> world \<Rightarrow> world" where
  "emit e w = w\<lparr>trace := trace w @ [e]\<rparr>"

text \<open>One call into the storage engine: it is recorded, and the engine may report an error.\<close>

definition sql_call :: "env \<Rightarrow> event \<Rightarrow> world \<Rightarrow> world \<times> go_error" where
  "sql_call env e w = (emit e w, sql_error env (length (trace w)))"

text \<open>Decimal rendering of a status code, as \<^verbatim>\<open>fmt.Println\<close> prints an int.\<close>

fun Itoa :: "nat \<Rightarrow> string" where
  "Itoa n = (if n < 10 then [char_of (48 + n)]
             else Itoa (n div 10) @ [char_of (48 + n mod 10)])"

declare Itoa.simps [simp del]

fun HasPrefix :: "string \<Rightarrow> string \<Rightarrow> bool" where
  "HasPrefix s [] = True"
| "HasPrefix [] (p # ps) = False"
| "HasPrefix (c # cs) (p # ps) = (c = p \<and> HasPrefix cs ps)"

text \<open>\<^verbatim>\<open>strings.Contains(s, substr)\<close>.\<close>

fun Contains :: "string \<Rightarrow> string \<Rightarrow> bool" where
  "Contains [] sub = (sub = [])"
| "Contains (c # cs) sub = (HasPrefix (c # cs) sub \<or> Contains cs sub)"

text \<open>\<^verbatim>\<open>strings.Replace(s, old, "", 1)\<close> for a non-empty \<open>old\<close>: the first occurrence is removed.\<close>

fun Replace_first :: "string \<Rightarrow> string \<Rightarrow> string" where
  "Replace_first [] old = []"
| "Replace_first (c # cs) old =
     (if HasPrefix (c # cs) old then drop (length old) (c # cs)
      else c # Replace_first cs old)"


section \<open>Date conversion\<close>

text \<open>
  Modelled from the spec: the conversion of line 176 and line 180 is done by
  \<^verbatim>\<open>time.Parse\<close> and \<^verbatim>\<open>Time.Format\<close> of Go's standard library, which are not
  under src/.  The spec says that a date rendered as \<^verbatim>\<open>YYYY.MM.DD\<close> is converted
  to \<^verbatim>\<open>YYYY-MM-DD\<close> calendar form and that a parse failure is fatal.  The model
  reads the layout \<^verbatim>\<open>2006.01.02\<close> element by element, as the library does: a year
  of exactly four digits, the literal dot, a month of exactly two digits in 1..12,
  the literal dot, a day of exactly two digits, no text left over, and the day
  within the month's length for that year.
\<close>

definition isDigit :: "char \<Rightarrow> bool" where
  "isDigit c = (CHR ''0'' \<le> c \<and> c \<le> CHR ''9'')"

definition digit :: "char \<Rightarrow> nat" where
  "digit c = of_char c - 48"

fun long_year :: "string \<Rightarrow> (nat \<times> string) option" where
  "long_year (a # b # c # d # rest) =
     (if isDigit a \<and> isDigit b \<and> isDigit c \<and> isDigit d
      then Some (digit a * 1000 + digit b * 100 + digit c * 10 + digit d, rest)
      else None)"
| "long_year _ = None"

fun getnum_fixed :: "string \<Rightarrow> (nat \<times> string) option" where
  "getnum_fixed (a # b # rest) =
     (if isDigit a \<and> isDigit b then Some (digit a * 10 + digit b, rest) else None)"
| "getnum_fixed _ = None"

fun skip :: "string \<Rightarrow> char \<Rightarrow> string option" where
  "skip (c # rest) p = (if c = p then Some rest else None)"
| "skip [] p = None"

definition isLeap :: "nat \<Rightarrow> bool" where
  "isLeap year = (year mod 4 = 0 \<and> (year mod 100 \<noteq> 0 \<or> year mod 400 = 0))"

definition daysIn :: "nat \<Rightarrow> nat \<Rightarrow> nat" where
  "daysIn m year =
     (if m = 2 then (if isLeap year then 29 else 28)
      else if m = 4 \<or> m = 6 \<or> m = 9 \<or> m = 11 then 30 else 31)"

definition time_Parse :: "string \<Rightarrow> (nat \<times> nat \<times> nat) option" where
  "time_Parse v =
     (case long_year v of None \<Rightarrow> None
      | Some (year, v1) \<Rightarrow>
     (case skip v1 CHR ''.'' of None \<Rightarrow> None
      | Some v2 \<Rightarrow>
     (case getnum_fixed v2 of None \<Rightarrow> None
      | Some (month, v3) \<Rightarrow>
        if month \<le> 0 \<or> 12 < month then None else
     (case skip v3 CHR ''.'' of None \<Rightarrow> None
      | Some v4 \<Rightarrow>
     (case getnum_fixed v4 of None \<Rightarrow> None
      | Some (day, v5) \<Rightarrow>
        if v5 \<noteq> [] then None
        else if day < 1 \<or> daysIn month year < day then None
        else Some (year, month, day))))))"

definition appendInt2 :: "nat \<Rightarrow> string" where
  "appendInt2 n = [char_of (48 + n div 10 mod 10), char_of (48 + n mod 10)]"

definition appendInt4 :: "nat \<Rightarrow> string" where
  "appendInt4 n = appendInt2 (n div 100) @ appendInt2 (n mod 100)"

definition Format :: "nat \<times> nat \<times> nat \<Rightarrow> string" where
  "Format t = (case t of (year, month, day) \<Rightarrow>
     appendInt4 year @ ''-'' @ appendInt2 month @ ''-'' @ appendInt2 day)"

text \<open>Lines 176-180: \<open>None\<close> is the branch that ends in \<^verbatim>\<open>log.Fatal\<close>.\<close>

definition outputDate :: "string \<Rightarrow> string option" where
  "outputDate d = map_option Format (time_Parse d)"

text \<open>
  The reading of the spec's words the conversion is compared with: ten characters,
  digits around two dots, naming a day of the calendar.
\<close>

definition dotted_date :: "string \<Rightarrow> bool" where
  "dotted_date s =
     (length s = 10 \<and> list_all isDigit (take 4 s) \<and> s ! 4 = CHR ''.'' \<and>
      list_all isDigit (take 2 (drop 5 s)) \<and> s ! 7 = CHR ''.'' \<and>
      list_all isDigit (drop 8 s) \<and>
      (let y = digit (s ! 0) * 1000 + digit (s ! 1) * 100 + digit (s ! 2) * 10 + digit (s ! 3);
           m = digit (s ! 5) * 10 + digit (s ! 6);
           d = digit (s ! 8) * 10 + digit (s ! 9)
       in 1 \<le> m \<and> m \<le> 12 \<and> 1 \<le> d \<and> d \<le> daysIn m y))"

definition dashed :: "string \<Rightarrow> string" where
  "dashed s = (s[4 := CHR ''-''])[7 := CHR ''-'']"

section \<open>The program\<close>

subsection \<open>notifySlack (lines 97-117)\<close>

text \<open>
  \<^verbatim>\<open>json.Marshal\<close> of a map from string to string cannot fail.  \<open>err\<close> is the
  variable assigned by \<^verbatim>\<open>http.Post\<close>; the non-200 branch returns that variable.
\<close>

definition notifySlack :: "env \<Rightarrow> string \<Rightarrow> world \<Rightarrow> world \<times> (abort + go_error)" where
  "notifySlack env msg w =
     (case http_Post env (length (trace w)) (webhookURL env) msg of (status, err) \<Rightarrow>
      (let w1 = emit (HttpPost (webhookURL env) msg) w in
       case err of
         Some e \<Rightarrow> (w1, Inl (Fatal (''post error:'' @ e)))
       | None \<Rightarrow>
           if status \<noteq> 200
           then (emit (Println (''Error: status code '' @ Itoa status)) w1, Inr err)
           else (w1, Inr None)))"

subsection \<open>markAsRead (lines 118-147)\<close>

text \<open>
  The statement \<^verbatim>\<open>UPDATE articles SET read = 1 WHERE url = ?\<close> on the rows seen
  by the transaction.
\<close>

definition update_read :: "string \<Rightarrow> article list \<Rightarrow> article list" where
  "update_read u rows = map (\<lambda>a. if url a = u then a\<lparr>read := True\<rparr> else a) rows"

text \<open>
  The rows are changed in the transaction and reach the table at the commit; a
  run that ends in \<^verbatim>\<open>log.Fatal\<close> before it leaves the table as it was.
\<close>

definition markAsRead :: "env \<Rightarrow> string \<Rightarrow> world \<Rightarrow> world \<times> (abort + go_error)" where
  "markAsRead env u w =
     (case sql_call env SqlBegin w of
        (w1, Some e) \<Rightarrow> (w1, Inl (Fatal e))
      | (w1, None) \<Rightarrow>
     (case sql_call env SqlPrepare w1 of
        (w2, Some e) \<Rightarrow> (w2, Inl (Fatal e))
      | (w2, None) \<Rightarrow>
     (case sql_call env (SqlExecUpdate u) w2 of
        (w3, Some e) \<Rightarrow> (w3, Inl (Fatal e))
      | (w3, None) \<Rightarrow>
     (case sql_call env SqlCommit w3 of
        (w4, Some e) \<Rightarrow> (w4, Inl (Fatal e))
      | (w4, None) \<Rightarrow> (w4\<lparr>db := update_read u (db w4)\<rparr>, Inr None)))))"

subsection \<open>saveAllArticles (lines 196-232)\<close>

text \<open>
  The constraint \<^verbatim>\<open>UNIQUE (url, title)\<close> of the schema (lines 30-38): a row with
  the same url and title is already among the rows the transaction sees.
\<close>

definition unique_failed :: "article \<Rightarrow> article list \<Rightarrow> bool" where
  "unique_failed a rows = list_ex (\<lambda>r. url r = url a \<and> title r = title a) rows"

text \<open>
  One \<^verbatim>\<open>stmt.Exec(article.title, article.url, article.date)\<close>: an error of the
  engine, or the constraint violation (only this statement is undone), or a new row
  whose \<^verbatim>\<open>read\<close> column takes its default.
\<close>

definition exec_insert :: "env \<Rightarrow> article \<Rightarrow> article list \<Rightarrow> world \<Rightarrow> world \<times> go_error \<times> article list" where
  "exec_insert env a rows w =
     (case sql_call env (SqlExecInsert (title a) (url a) (date a)) w of
        (w1, Some e) \<Rightarrow> (w1, Some e, rows)
      | (w1, None) \<Rightarrow>
          if unique_failed a rows
          then (w1, Some ''UNIQUE constraint failed: articles.url, articles.title'', rows)
          else (w1, None, rows @ [\<lparr>title = title a, url = url a, date = date a, read = False\<rparr>]))"

fun insert_loop :: "env \<Rightarrow> article list \<Rightarrow> article list \<Rightarrow> world \<Rightarrow> world \<times> (abort + article list)" where
  "insert_loop env [] rows w = (w, Inr rows)"
| "insert_loop env (a # as) rows w =
     (case exec_insert env a rows w of
        (w1, Some e, rows1) \<Rightarrow>
          if Contains e ''UNIQUE constraint failed'' then insert_loop env as rows1 w1
          else (w1, Inl (Fatal (''stmt.Exec: '' @ e)))
      | (w1, None, rows1) \<Rightarrow> insert_loop env as rows1 w1)"

definition saveAllArticles :: "env \<Rightarrow> article list \<Rightarrow> world \<Rightarrow> world \<times> (abort + go_error)" where
  "saveAllArticles env articles w =
     (case sql_call env SqlBegin w of
        (w1, Some e) \<Rightarrow> (w1, Inl (Fatal e))
      | (w1, None) \<Rightarrow>
     (case sql_call env SqlPrepare w1 of
        (w2, Some e) \<Rightarrow> (w2, Inl (Fatal e))
      | (w2, None) \<Rightarrow>
     (case insert_loop env articles (db w2) w2 of
        (w3, Inl a) \<Rightarrow> (w3, Inl a)
      | (w3, Inr rows) \<Rightarrow>
     (case sql_call env SqlCommit w3 of
        (w4, Some e) \<Rightarrow> (w4, Inl (Fatal e))
      | (w4, None) \<Rightarrow> (w4\<lparr>db := rows\<rparr>, Inr None)))))"

subsection \<open>fetchAllArticles (lines 149-195)\<close>

text \<open>The body of the inner callback, lines 169-188, for one \<^verbatim>\<open>li\<close> element.\<close>

definition parse_li :: "env \<Rightarrow> li \<Rightarrow> abort + article" where
  "parse_li env s =
     (case outputDate (date_text s) of
        None \<Rightarrow> Inl (Fatal ''parsing time'')
      | Some d \<Rightarrow>
          (let path = Replace_first (href s) ''/articles/'' in
           case url_JoinPath env (baseURL env) path of
             (endpoint, Some e) \<Rightarrow> Inl (Fatal e)
           | (endpoint, None) \<Rightarrow> Inr \<lparr>title = a_title s, url = endpoint, date = d, read = False\<rparr>))"

fun parse_all :: "env \<Rightarrow> li list \<Rightarrow> article list \<Rightarrow> abort + article list" where
  "parse_all env [] articles = Inr articles"
| "parse_all env (s # ss) articles =
     (case parse_li env s of
        Inl a \<Rightarrow> Inl a
      | Inr x \<Rightarrow> parse_all env ss (articles @ [x]))"

definition fetchAllArticles :: "env \<Rightarrow> world \<Rightarrow> world \<times> (abort + unit)" where
  "fetchAllArticles env w =
     (case http_Get env (baseURL env) of (resp, err) \<Rightarrow>
      (let w1 = emit (HttpGet (baseURL env)) w in
       case err of
         Some e \<Rightarrow> (w1, Inl (Fatal e))
       | None \<Rightarrow>
           if StatusCode resp \<noteq> 200
           then (emit (Println (''Error: status code '' @ Itoa (StatusCode resp))) w1, Inr ())
           else
          (case Body resp of
             None \<Rightarrow> (w1, Inl (Fatal ''goquery''))
           | Some doc \<Rightarrow>
          (case parse_all env (concat doc) [] of
             Inl a \<Rightarrow> (w1, Inl a)
           | Inr articles \<Rightarrow>
          (case saveAllArticles env articles w1 of
             (w2, Inl a) \<Rightarrow> (w2, Inl a)
           | (w2, Inr (Some e)) \<Rightarrow> (w2, Inl (Fatal e))
           | (w2, Inr None) \<Rightarrow> (w2, Inr ()))))))"

subsection \<open>main (lines 62-95)\<close>

text \<open>
  The rows answering \<^verbatim>\<open>SELECT url FROM articles WHERE read = 0 ORDER BY date\<close>;
  rows of equal date are taken in the order of the table.
\<close>

definition unread_rows :: "article list \<Rightarrow> article list" where
  "unread_rows rows = sort_key date (filter (\<lambda>a. \<not> read a) rows)"

text \<open>
  Lines 76-82: one \<^verbatim>\<open>rows.Scan\<close> per row, appending its url.  The loop ends when
  \<^verbatim>\<open>rows.Next\<close> returns false; \<^verbatim>\<open>rows.Err\<close> is not consulted by the program.
\<close>

fun scan_rows :: "env \<Rightarrow> article list \<Rightarrow> string list \<Rightarrow> world \<Rightarrow> world \<times> (abort + string list)" where
  "scan_rows env [] urls w = (w, Inr urls)"
| "scan_rows env (r # rs) urls w =
     (case sql_call env SqlScan w of
        (w1, Some e) \<Rightarrow> (w1, Inl (Fatal e))
      | (w1, None) \<Rightarrow> scan_rows env rs (urls @ [url r]) w1)"

text \<open>Lines 70-82.\<close>

definition query_unread :: "env \<Rightarrow> world \<Rightarrow> world \<times> (abort + string list)" where
  "query_unread env w =
     (case sql_call env SqlQuery w of
        (w1, Some e) \<Rightarrow> (w1, Inl (Fatal e))
      | (w1, None) \<Rightarrow> scan_rows env (unread_rows (db w1)) [] w1)"

text \<open>The body of the loop of lines 84-93, for the urls still to be visited.\<close>

fun notify_loop :: "env \<Rightarrow> string list \<Rightarrow> world \<Rightarrow> world \<times> (abort + unit)" where
  "notify_loop env [] w = (w, Inr ())"
| "notify_loop env (u # us) w =
     (case notifySlack env u w of
        (w1, Inl a) \<Rightarrow> (w1, Inl a)
      | (w1, Inr (Some e)) \<Rightarrow> (w1, Inl (Fatal e))
      | (w1, Inr None) \<Rightarrow>
     (case markAsRead env u w1 of
        (w2, Inl a) \<Rightarrow> (w2, Inl a)
      | (w2, Inr (Some e)) \<Rightarrow> (w2, Inl (Fatal e))
      | (w2, Inr None) \<Rightarrow> notify_loop env us w2))"

text \<open>
  Lines 69-94.  \<^verbatim>\<open>urls\<close> is built by appending to a nil slice, so with fewer than
  three elements its capacity is its length and \<^verbatim>\<open>urls[:3]\<close> panics with
  ``slice bounds out of range''.
\<close>

definition notify_unread :: "env \<Rightarrow> world \<Rightarrow> world \<times> (abort + unit)" where
  "notify_unread env w =
     (case query_unread env w of
        (w1, Inl a) \<Rightarrow> (w1, Inl a)
      | (w1, Inr urls) \<Rightarrow>
          if length urls < 3 then (w1, Inl (Panic ''slice bounds out of range [:3]''))
          else
         (case notify_loop env (take 3 urls) w1 of
            (w2, Inl a) \<Rightarrow> (w2, Inl a)
          | (w2, Inr _) \<Rightarrow> (emit (Println ''finish'') w2, Inr ())))"

text \<open>Lines 63-67: the fetch pass runs on every day but Friday.\<close>

definition fetch_unless_friday :: "env \<Rightarrow> world \<Rightarrow> world \<times> (abort + unit)" where
  "fetch_unless_friday env w =
     (if now_weekday env \<noteq> Friday then fetchAllArticles env w else (w, Inr ()))"

definition main :: "env \<Rightarrow> world \<Rightarrow> world \<times> (abort + unit)" where
  "main env w =
     (case fetch_unless_friday env w of
        (w1, Inl a) \<Rightarrow> (w1, Inl a)
      | (w1, Inr _) \<Rightarrow> notify_unread env w1)"

section \<open>Observations on a run\<close>

text \<open>The urls sent to the webhook, in the order of the requests.\<close>

fun posted :: "event list \<Rightarrow> string list" where
  "posted [] = []"
| "posted (HttpPost endpoint msg # es) = msg # posted es"
| "posted (e # es) = posted es"

text \<open>The effects that only the fetch pass performs: the listing request and the inserts.\<close>

fun fetch_event :: "event \<Rightarrow> bool" where
  "fetch_event (HttpGet u) = True"
| "fetch_event (SqlExecInsert t u d) = True"
| "fetch_event e = False"

text \<open>The effects of one successful notify-and-mark cycle for a url.\<close>

definition cycle_events :: "env \<Rightarrow> string \<Rightarrow> event list" where
  "cycle_events env u =
     [HttpPost (webhookURL env) u, SqlBegin, SqlPrepare, SqlExecUpdate u, SqlCommit]"

text \<open>How many rows differ between the table before and after an update.\<close>

definition changed_rows :: "article list \<Rightarrow> article list \<Rightarrow> nat" where
  "changed_rows old new = length (filter (\<lambda>(a, b). a \<noteq> b) (zip old new))"

text \<open>The columns of the uniqueness constraint, and the invariant of the schema.\<close>

definition url_title :: "article \<Rightarrow> string \<times> string" where
  "url_title a = (url a, title a)"

definition unique_rows :: "article list \<Rightarrow> bool" where
  "unique_rows rows = distinct (map url_title rows)"

section \<open>Example environments and stores\<close>

text \<open>Concrete inputs on which the properties below are instantiated.\<close>

definition row :: "string \<Rightarrow> string \<Rightarrow> string \<Rightarrow> bool \<Rightarrow> article" where
  "row t u d r = \<lparr>title = t, url = u, date = d, read = r\<rparr>"

text \<open>A Friday on which the network and the storage engine answer every call without error.\<close>

definition env_ok :: env where
  "env_ok = \<lparr>now_weekday = Friday,
     baseURL = ''https://blog.example/articles'',
     webhookURL = ''https://hooks.example/services/T'',
     http_Get = (\<lambda>u. (\<lparr>StatusCode = 200, Body = Some []\<rparr>, None)),
     http_Post = (\<lambda>n u b. (200, None)),
     url_JoinPath = (\<lambda>b p. (b @ ''/'' @ p, None)),
     sql_error = (\<lambda>n. None)\<rparr>"

text \<open>The same, with a webhook that answers every request with status 500.\<close>

definition env_500 :: env where
  "env_500 = env_ok\<lparr>http_Post := (\<lambda>n u b. (500, None))\<rparr>"

text \<open>A Monday on which the listing page answers with status 503.\<close>

definition env_503 :: env where
  "env_503 = env_ok\<lparr>now_weekday := Monday,
     http_Get := (\<lambda>u. (\<lparr>StatusCode = 503, Body = None\<rparr>, None))\<rparr>"

text \<open>Five unread rows, stored out of date order.\<close>

definition store5 :: "article list" where
  "store5 =
     [row ''D'' ''https://blog.example/d'' ''2023-01-04'' False,
      row ''B'' ''https://blog.example/b'' ''2023-01-02'' False,
      row ''E'' ''https://blog.example/e'' ''2023-01-05'' False,
      row ''A'' ''https://blog.example/a'' ''2023-01-01'' False,
      row ''C'' ''https://blog.example/c'' ''2023-01-03'' False]"

text \<open>
  Five unread rows dated 2023-01-01 to 2023-01-05, where the article of the first
  row was listed again under a changed title: the row dated 2023-01-04 has its url.
\<close>

definition store5_retitled :: "article list" where
  "store5_retitled =
     [row ''A'' ''https://blog.example/a'' ''2023-01-01'' False,
      row ''B'' ''https://blog.example/b'' ''2023-01-02'' False,
      row ''C'' ''https://blog.example/c'' ''2023-01-03'' False,
      row ''A (updated)'' ''https://blog.example/a'' ''2023-01-04'' False,
      row ''E'' ''https://blog.example/e'' ''2023-01-05'' False]"

text \<open>Three unread rows.\<close>

definition store3 :: "article list" where
  "store3 =
     [row ''A'' ''https://blog.example/a'' ''2023-01-01'' False,
      row ''B'' ''https://blog.example/b'' ''2023-01-02'' False,
      row ''C'' ''https://blog.example/c'' ''2023-01-03'' False]"

text \<open>Two unread rows.\<close>

definition store2 :: "article list" where
  "store2 =
     [row ''A'' ''https://blog.example/a'' ''2023-01-01'' False,
      row ''B'' ''https://blog.example/b'' ''2023-01-02'' False]"

text \<open>Two unread rows with the same url and different titles, which the schema allows.\<close>

definition store_same_url :: "article list" where
  "store_same_url =
     [row ''Foo'' ''https://blog.example/foo'' ''2023-01-01'' False,
      row ''Foo (updated)'' ''https://blog.example/foo'' ''2023-01-02'' False]"

definition start :: "article list \<Rightarrow> world" where
  "start rows = \<lparr>db = rows, trace = []\<rparr>"

section \<open>Properties of the date conversion\<close>

lemma isDigit_iff: "isDigit c \<longleftrightarrow> 48 \<le> (of_char c :: nat) \<and> (of_char c :: nat) \<le> 57"
  by (simp add: isDigit_def less_eq_char_def)

lemma digit_lt: "isDigit c \<Longrightarrow> digit c < 10"
  by (auto simp: isDigit_iff digit_def)

lemma char_of_digit: "isDigit c \<Longrightarrow> char_of (48 + digit c) = c"
  by (simp add: isDigit_iff digit_def)

lemma appendInt2_digits:
  "isDigit a \<Longrightarrow> isDigit b \<Longrightarrow> appendInt2 (digit a * 10 + digit b) = [a, b]"
  using digit_lt[of a] digit_lt[of b]
  by (simp add: appendInt2_def char_of_digit)

lemma appendInt4_digits:
  assumes "isDigit a" "isDigit b" "isDigit c" "isDigit d"
  shows "appendInt4 (digit a * 1000 + digit b * 100 + digit c * 10 + digit d) = [a, b, c, d]"
proof -
  let ?n = "digit a * 1000 + digit b * 100 + digit c * 10 + digit d"
  have lt: "digit a < 10" "digit b < 10" "digit c < 10" "digit d < 10"
    using assms by (simp_all add: digit_lt)
  have hi: "?n div 100 = digit a * 10 + digit b" using lt by simp
  have lo: "?n mod 100 = digit c * 10 + digit d"
  proof -
    have "?n = (digit a * 10 + digit b) * 100 + (digit c * 10 + digit d)" by simp
    moreover have "digit c * 10 + digit d < 100" using lt by simp
    ultimately show ?thesis by (metis mod_mult_self3 mod_less)
  qed
  show ?thesis
    unfolding appendInt4_def hi lo
    by (simp add: appendInt2_digits assms)
qed

lemma time_Parse_shape:
  "time_Parse s = Some t \<Longrightarrow>
   \<exists>a b c d e f g h. s = [a, b, c, d, CHR ''.'', e, f, CHR ''.'', g, h] \<and>
     isDigit a \<and> isDigit b \<and> isDigit c \<and> isDigit d \<and> isDigit e \<and> isDigit f \<and>
     isDigit g \<and> isDigit h \<and>
     t = (digit a * 1000 + digit b * 100 + digit c * 10 + digit d,
          digit e * 10 + digit f, digit g * 10 + digit h) \<and>
     1 \<le> digit e * 10 + digit f \<and> digit e * 10 + digit f \<le> 12 \<and>
     1 \<le> digit g * 10 + digit h \<and>
     digit g * 10 + digit h \<le> daysIn (digit e * 10 + digit f)
        (digit a * 1000 + digit b * 100 + digit c * 10 + digit d)"
  unfolding time_Parse_def
  by (auto split: option.splits prod.splits if_splits
           elim!: long_year.elims getnum_fixed.elims skip.elims)

lemma length10:
  "length s = 10 \<Longrightarrow> \<exists>a b c d p e f q g h. s = [a, b, c, d, p, e, f, q, g, h]"
proof -
  assume "length s = 10"
  then have "length s = Suc (Suc (Suc (Suc (Suc (Suc (Suc (Suc (Suc (Suc 0)))))))))"
    by simp
  then show ?thesis
    by (clarsimp simp: length_Suc_conv)
qed

lemma dotted_date_shape:
  "dotted_date s \<Longrightarrow>
   \<exists>a b c d e f g h. s = [a, b, c, d, CHR ''.'', e, f, CHR ''.'', g, h] \<and>
     isDigit a \<and> isDigit b \<and> isDigit c \<and> isDigit d \<and> isDigit e \<and> isDigit f \<and>
     isDigit g \<and> isDigit h \<and>
     1 \<le> digit e * 10 + digit f \<and> digit e * 10 + digit f \<le> 12 \<and>
     1 \<le> digit g * 10 + digit h \<and>
     digit g * 10 + digit h \<le> daysIn (digit e * 10 + digit f)
        (digit a * 1000 + digit b * 100 + digit c * 10 + digit d)"
proof -
  assume dd: "dotted_date s"
  then have "length s = 10" by (simp add: dotted_date_def)
  then obtain a b c d p e f q g h where s: "s = [a, b, c, d, p, e, f, q, g, h]"
    using length10[of s] by auto
  from dd show ?thesis
    unfolding s dotted_date_def by (simp add: Let_def)
qed

lemma shape_dotted_date:
  assumes "isDigit a" "isDigit b" "isDigit c" "isDigit d" "isDigit e" "isDigit f"
    "isDigit g" "isDigit h"
    "1 \<le> digit e * 10 + digit f" "digit e * 10 + digit f \<le> 12"
    "1 \<le> digit g * 10 + digit h"
    "digit g * 10 + digit h \<le> daysIn (digit e * 10 + digit f)
        (digit a * 1000 + digit b * 100 + digit c * 10 + digit d)"
  shows "dotted_date [a, b, c, d, CHR ''.'', e, f, CHR ''.'', g, h]"
  using assms unfolding dotted_date_def by (simp add: Let_def)

lemma outputDate_shape:
  assumes "isDigit a" "isDigit b" "isDigit c" "isDigit d" "isDigit e" "isDigit f"
    "isDigit g" "isDigit h"
    "1 \<le> digit e * 10 + digit f" "digit e * 10 + digit f \<le> 12"
    "1 \<le> digit g * 10 + digit h"
    "digit g * 10 + digit h \<le> daysIn (digit e * 10 + digit f)
        (digit a * 1000 + digit b * 100 + digit c * 10 + digit d)"
  shows "outputDate [a, b, c, d, CHR ''.'', e, f, CHR ''.'', g, h]
         = Some [a, b, c, d, CHR ''-'', e, f, CHR ''-'', g, h]"
proof -
  have "time_Parse [a, b, c, d, CHR ''.'', e, f, CHR ''.'', g, h]
        = Some (digit a * 1000 + digit b * 100 + digit c * 10 + digit d,
                digit e * 10 + digit f, digit g * 10 + digit h)"
    using assms unfolding time_Parse_def by auto
  then show ?thesis
    unfolding outputDate_def Format_def
    by (simp add: appendInt4_digits appendInt2_digits assms(1-8))
qed


lemma outputDate_eq:
  "outputDate s = (if dotted_date s then Some (dashed s) else None)"
proof (cases "dotted_date s")
  case True
  then obtain a b c d e f g h where
    s: "s = [a, b, c, d, CHR ''.'', e, f, CHR ''.'', g, h]" and
    dg: "isDigit a" "isDigit b" "isDigit c" "isDigit d" "isDigit e" "isDigit f"
      "isDigit g" "isDigit h" and
    rg: "1 \<le> digit e * 10 + digit f" "digit e * 10 + digit f \<le> 12"
      "1 \<le> digit g * 10 + digit h"
      "digit g * 10 + digit h \<le> daysIn (digit e * 10 + digit f)
        (digit a * 1000 + digit b * 100 + digit c * 10 + digit d)"
    using dotted_date_shape by blast
  have "dashed s = [a, b, c, d, CHR ''-'', e, f, CHR ''-'', g, h]"
    by (simp add: s dashed_def)
  with True outputDate_shape[OF dg rg] show ?thesis by (simp add: s)
next
  case False
  have "time_Parse s = None"
  proof (rule ccontr)
    assume "time_Parse s \<noteq> None"
    then obtain t where "time_Parse s = Some t" by auto
    from time_Parse_shape[OF this] obtain a b c d e f g h where
      s: "s = [a, b, c, d, CHR ''.'', e, f, CHR ''.'', g, h]" and
      dg: "isDigit a" "isDigit b" "isDigit c" "isDigit d" "isDigit e" "isDigit f"
        "isDigit g" "isDigit h" and
      rg: "1 \<le> digit e * 10 + digit f" "digit e * 10 + digit f \<le> 12"
        "1 \<le> digit g * 10 + digit h"
        "digit g * 10 + digit h \<le> daysIn (digit e * 10 + digit f)
          (digit a * 1000 + digit b * 100 + digit c * 10 + digit d)"
      by blast
    have "dotted_date s" unfolding s by (rule shape_dotted_date[OF dg rg])
    with False show False by simp
  qed
  with False show ?thesis by (simp add: outputDate_def)
qed

text \<open>
  C4: a date string of the form \<^verbatim>\<open>YYYY.MM.DD\<close> (four digits, two digits in 1..12
  and two digits naming a day of that month, around two dots) is converted to the
  same digits around two dashes, and every other string is rejected; in the
  callback of the fetch pass a rejected date ends in \<^verbatim>\<open>log.Fatal\<close>, and an accepted
  one reaches the article in its \<^verbatim>\<open>YYYY-MM-DD\<close> form.
\<close>

theorem date_conversion:
  "outputDate s = (if dotted_date s then Some (dashed s) else None) \<and>
   parse_li env x =
     (if dotted_date (date_text x)
      then (case url_JoinPath env (baseURL env) (Replace_first (href x) ''/articles/'') of
              (endpoint, Some e) \<Rightarrow> Inl (Fatal e)
            | (endpoint, None) \<Rightarrow>
                Inr \<lparr>title = a_title x, url = endpoint, date = dashed (date_text x), read = False\<rparr>)
      else Inl (Fatal ''parsing time''))"
  by (simp add: outputDate_eq parse_li_def)

theorem date_conversion_witness:
  "outputDate ''2023.06.20'' = Some ''2023-06-20'' \<and>
   outputDate ''2023.6.20'' = None \<and>
   outputDate ''2023.02.30'' = None \<and>
   parse_li env_ok \<lparr>href = ''/articles/foo'', a_title = ''Foo'', date_text = ''20.06.2023''\<rparr>
     = Inl (Fatal ''parsing time'')"
proof -
  have a: "dotted_date ''2023.06.20''"
    by (simp add: dotted_date_def isDigit_iff digit_def daysIn_def isLeap_def)
  have b: "\<not> dotted_date ''2023.6.20''"
    by (simp add: dotted_date_def)
  have c: "\<not> dotted_date ''2023.02.30''"
    by (simp add: dotted_date_def isDigit_iff digit_def daysIn_def isLeap_def)
  have d: "dashed ''2023.06.20'' = ''2023-06-20''"
    by (simp add: dashed_def)
  have e: "\<not> dotted_date ''20.06.2023''"
    by (simp add: dotted_date_def isDigit_iff)
  show ?thesis
    using date_conversion[of "''2023.06.20''" env_ok "\<lparr>href = ''/articles/foo'', a_title = ''Foo'', date_text = ''20.06.2023''\<rparr>"]
      date_conversion[of "''2023.6.20''"] date_conversion[of "''2023.02.30''"] a b c d e
    by simp
qed

section \<open>Effects of the single steps\<close>

lemma posted_append: "posted (xs @ ys) = posted xs @ posted ys"
  by (induction xs rule: posted.induct) simp_all

lemma db_emit: "db (emit e w) = db w"
  by (simp add: emit_def)

lemma trace_emit: "trace (emit e w) = trace w @ [e]"
  by (simp add: emit_def)

text \<open>notifySlack never hands an error to its caller: it returns \<^verbatim>\<open>nil\<close> or ends the process.\<close>

lemma notifySlack_result:
  "notifySlack env msg w = (w1, r) \<Longrightarrow>
   db w1 = db w \<and>
   (\<exists>es. trace w1 = trace w @ HttpPost (webhookURL env) msg # es \<and> posted es = [] \<and>
      list_all (\<lambda>e. \<not> fetch_event e) es) \<and>
   (r = Inr None \<or> (\<exists>e. r = Inl (Fatal e)))"
  unfolding notifySlack_def
  by (auto simp: Let_def db_emit trace_emit split: prod.splits option.splits if_splits)

lemma notifySlack_ok:
  "http_Post env (length (trace w)) (webhookURL env) msg = (200, None) \<Longrightarrow>
   notifySlack env msg w = (emit (HttpPost (webhookURL env) msg) w, Inr None)"
  by (simp add: notifySlack_def)

lemma notifySlack_not_ok:
  "http_Post env (length (trace w)) (webhookURL env) msg = (status, None) \<Longrightarrow> status \<noteq> 200 \<Longrightarrow>
   notifySlack env msg w =
     (emit (Println (''Error: status code '' @ Itoa status)) (emit (HttpPost (webhookURL env) msg) w),
      Inr None)"
  by (simp add: notifySlack_def)

lemma markAsRead_result:
  "markAsRead env u w = (w1, r) \<Longrightarrow>
   (\<exists>es. trace w1 = trace w @ es \<and> posted es = [] \<and> list_all (\<lambda>e. \<not> fetch_event e) es) \<and>
   ((r = Inr None \<and> db w1 = update_read u (db w)) \<or> ((\<exists>e. r = Inl (Fatal e)) \<and> db w1 = db w))"
  unfolding markAsRead_def sql_call_def
  by (auto simp: db_emit trace_emit split: prod.splits option.splits if_splits)

lemma markAsRead_ok:
  "\<forall>n. sql_error env n = None \<Longrightarrow>
   markAsRead env u w =
     (\<lparr>db = update_read u (db w),
       trace = trace w @ [SqlBegin, SqlPrepare, SqlExecUpdate u, SqlCommit]\<rparr>, Inr None)"
  by (simp add: markAsRead_def sql_call_def emit_def)

section \<open>The notify loop and the query\<close>

lemma notify_loop_result:
  "notify_loop env us w = (w', r) \<Longrightarrow>
   \<exists>es n. trace w' = trace w @ es \<and> list_all (\<lambda>e. \<not> fetch_event e) es \<and>
     n \<le> length us \<and> posted es = take n us \<and> (r = Inr () \<longrightarrow> n = length us)"
proof (induction us arbitrary: w)
  case Nil
  then show ?case by auto
next
  case (Cons u us)
  obtain w1 r1 where n: "notifySlack env u w = (w1, r1)" by (cases "notifySlack env u w")
  from notifySlack_result[OF n] obtain es1 where
    t1: "trace w1 = trace w @ HttpPost (webhookURL env) u # es1" and
    p1: "posted es1 = []" and f1: "list_all (\<lambda>e. \<not> fetch_event e) es1" and
    r1: "r1 = Inr None \<or> (\<exists>e. r1 = Inl (Fatal e))" by blast
  let ?es1 = "HttpPost (webhookURL env) u # es1"
  have a1: "posted ?es1 = [u]" "list_all (\<lambda>e. \<not> fetch_event e) ?es1"
    using p1 f1 by simp_all
  show ?case
  proof (cases "r1 = Inr None")
    case False
    with r1 n Cons.prems have "w' = w1" "r \<noteq> Inr ()" by auto
    with t1 a1 show ?thesis
      by (intro exI[of _ ?es1] exI[of _ 1]) simp
  next
    case True
    obtain w2 r2 where m: "markAsRead env u w1 = (w2, r2)" by (cases "markAsRead env u w1")
    from markAsRead_result[OF m] obtain es2 where
      t2: "trace w2 = trace w1 @ es2" and p2: "posted es2 = []" and
      f2: "list_all (\<lambda>e. \<not> fetch_event e) es2" and
      r2: "r2 = Inr None \<or> (\<exists>e. r2 = Inl (Fatal e))" by blast
    show ?thesis
    proof (cases "r2 = Inr None")
      case False
      with r2 n m True Cons.prems have "w' = w2" "r \<noteq> Inr ()" by auto
      with t1 t2 a1 p2 f2 show ?thesis
        by (intro exI[of _ "?es1 @ es2"] exI[of _ 1]) (simp add: posted_append)
    next
      case r2ok: True
      with n m True Cons.prems have "notify_loop env us w2 = (w', r)" by simp
      from Cons.IH[OF this] obtain es3 k where
        t3: "trace w' = trace w2 @ es3" and f3: "list_all (\<lambda>e. \<not> fetch_event e) es3" and
        k: "k \<le> length us" "posted es3 = take k us" "r = Inr () \<longrightarrow> k = length us"
        by blast
      with t1 t2 a1 p2 f2 show ?thesis
        by (intro exI[of _ "?es1 @ es2 @ es3"] exI[of _ "Suc k"]) (simp add: posted_append)
    qed
  qed
qed

lemma notify_loop_ok:
  assumes "\<forall>n u b. http_Post env n u b = (200, None)" "\<forall>n. sql_error env n = None"
  shows "notify_loop env us w =
     (\<lparr>db = fold update_read us (db w), trace = trace w @ concat (map (cycle_events env) us)\<rparr>,
      Inr ())"
proof (induction us arbitrary: w)
  case Nil
  show ?case by simp
next
  case (Cons u us)
  show ?case
    by (simp add: notifySlack_ok assms markAsRead_ok Cons.IH emit_def cycle_events_def)
qed

lemma scan_rows_result:
  "scan_rows env rows urls w = (w', r) \<Longrightarrow>
   db w' = db w \<and> (\<exists>k \<le> length rows. trace w' = trace w @ replicate k SqlScan) \<and>
   (\<forall>us. r = Inr us \<longrightarrow> us = urls @ map url rows \<and>
      trace w' = trace w @ replicate (length rows) SqlScan)"
proof (induction rows arbitrary: urls w)
  case Nil
  then show ?case by auto
next
  case (Cons a rows)
  show ?case
  proof (cases "sql_error env (length (trace w))")
    case (Some e)
    with Cons.prems have "w' = emit SqlScan w" "r = Inl (Fatal e)"
      by (auto simp: sql_call_def)
    then show ?thesis
      by (auto simp: db_emit trace_emit intro!: exI[of _ 1])
  next
    case None
    with Cons.prems have "scan_rows env rows (urls @ [url a]) (emit SqlScan w) = (w', r)"
      by (simp add: sql_call_def)
    from Cons.IH[OF this] show ?thesis
      apply (clarsimp simp: db_emit trace_emit)
      subgoal for k
        by (rule exI[of _ "Suc k"]) (simp add: replicate_app_Cons_same)
      done
  qed
qed

lemma scan_rows_ok:
  "\<forall>n. sql_error env n = None \<Longrightarrow>
   scan_rows env rows urls w =
     (w\<lparr>trace := trace w @ replicate (length rows) SqlScan\<rparr>, Inr (urls @ map url rows))"
  by (induction rows arbitrary: urls w)
     (simp_all add: sql_call_def emit_def replicate_app_Cons_same)

lemma query_unread_result:
  "query_unread env w = (w', r) \<Longrightarrow>
   db w' = db w \<and> (\<exists>k \<le> length (unread_rows (db w)). trace w' = trace w @ SqlQuery # replicate k SqlScan) \<and>
   (\<forall>us. r = Inr us \<longrightarrow> us = map url (unread_rows (db w)) \<and>
      trace w' = trace w @ SqlQuery # replicate (length us) SqlScan)"
proof (cases "sql_error env (length (trace w))")
  case (Some e)
  assume "query_unread env w = (w', r)"
  with Some have "w' = emit SqlQuery w" "r = Inl (Fatal e)"
    by (auto simp: query_unread_def sql_call_def)
  then show ?thesis
    by (auto simp: db_emit trace_emit intro!: exI[of _ 0])
next
  case None
  assume "query_unread env w = (w', r)"
  with None have "scan_rows env (unread_rows (db w)) [] (emit SqlQuery w) = (w', r)"
    by (simp add: query_unread_def sql_call_def db_emit)
  from scan_rows_result[OF this] obtain k where
    d: "db w' = db w" and k: "k \<le> length (unread_rows (db w))" and
    t: "trace w' = trace w @ SqlQuery # replicate k SqlScan" and
    u: "\<forall>us. r = Inr us \<longrightarrow> us = map url (unread_rows (db w)) \<and>
      trace w' = trace w @ SqlQuery # replicate (length (unread_rows (db w))) SqlScan"
    by (simp add: db_emit trace_emit) blast
  have "\<exists>k \<le> length (unread_rows (db w)). trace w' = trace w @ SqlQuery # replicate k SqlScan"
    using k t by blast
  moreover have "\<forall>us. r = Inr us \<longrightarrow> us = map url (unread_rows (db w)) \<and>
      trace w' = trace w @ SqlQuery # replicate (length us) SqlScan"
  proof (intro allI impI)
    fix us
    assume "r = Inr us"
    with u have "us = map url (unread_rows (db w))"
      "trace w' = trace w @ SqlQuery # replicate (length (unread_rows (db w))) SqlScan"
      by blast+
    then show "us = map url (unread_rows (db w)) \<and>
      trace w' = trace w @ SqlQuery # replicate (length us) SqlScan"
      by simp
  qed
  ultimately show ?thesis using d by blast
qed

lemma query_unread_ok:
  "\<forall>n. sql_error env n = None \<Longrightarrow>
   query_unread env w =
     (w\<lparr>trace := trace w @ SqlQuery # replicate (length (unread_rows (db w))) SqlScan\<rparr>,
      Inr (map url (unread_rows (db w))))"
  by (simp add: query_unread_def sql_call_def scan_rows_ok) (simp add: emit_def)

lemma notify_unread_result:
  assumes "notify_unread env w = (w', r)"
  shows "\<exists>es n. trace w' = trace w @ SqlQuery # es \<and> list_all (\<lambda>e. \<not> fetch_event e) es \<and>
     n \<le> 3 \<and> posted es = map url (take n (unread_rows (db w))) \<and>
     (r = Inr () \<longrightarrow> n = 3 \<and> 3 \<le> length (unread_rows (db w)))"
proof -
  obtain w1 r1 where q: "query_unread env w = (w1, r1)" by (cases "query_unread env w")
  from query_unread_result[OF q] obtain k where
    d1: "db w1 = db w" and t1: "trace w1 = trace w @ SqlQuery # replicate k SqlScan" and
    u1: "\<forall>us. r1 = Inr us \<longrightarrow> us = map url (unread_rows (db w))"
    by blast
  have s1: "list_all (\<lambda>e. \<not> fetch_event e) (replicate k SqlScan)" "posted (replicate k SqlScan) = []"
    by (induction k) simp_all
  show ?thesis
  proof (cases r1)
    case (Inl a)
    with q assms have "w' = w1" "r \<noteq> Inr ()" by (auto simp: notify_unread_def)
    with t1 s1 show ?thesis
      by (intro exI[of _ "replicate k SqlScan"] exI[of _ 0]) simp
  next
    case (Inr urls)
    with u1 have urls: "urls = map url (unread_rows (db w))" by simp
    show ?thesis
    proof (cases "length urls < 3")
      case True
      with q Inr assms have "w' = w1" "r \<noteq> Inr ()" by (auto simp: notify_unread_def)
      with t1 s1 show ?thesis
        by (intro exI[of _ "replicate k SqlScan"] exI[of _ 0]) simp
    next
      case False
      obtain w2 r2 where l: "notify_loop env (take 3 urls) w1 = (w2, r2)"
        by (cases "notify_loop env (take 3 urls) w1")
      from notify_loop_result[OF l] obtain es n where
        t2: "trace w2 = trace w1 @ es" and f2: "list_all (\<lambda>e. \<not> fetch_event e) es" and
        n: "n \<le> length (take 3 urls)" "posted es = take n (take 3 urls)"
           "r2 = Inr () \<longrightarrow> n = length (take 3 urls)"
        by blast
      from False n(1) have n3: "n \<le> 3" by simp
      then have tk: "take n (take 3 urls) = map url (take n (unread_rows (db w)))"
        by (simp add: urls take_map min_def)
      show ?thesis
      proof (cases r2)
        case (Inl a)
        with q Inr False l assms have "w' = w2" "r \<noteq> Inr ()" by (auto simp: notify_unread_def)
        with t1 t2 s1 f2 n3 n(2) tk show ?thesis
          by (intro exI[of _ "replicate k SqlScan @ es"] exI[of _ n]) (simp add: posted_append)
      next
        case r2ok: (Inr x)
        with q Inr False l assms have w': "w' = emit (Println ''finish'') w2"
          by (auto simp: notify_unread_def)
        from r2ok n(3) False have "n = 3" by simp
        moreover from False urls have "3 \<le> length (unread_rows (db w))" by simp
        ultimately show ?thesis
          using t1 t2 s1 f2 n(2) tk w'
          by (intro exI[of _ "replicate k SqlScan @ es @ [Println ''finish'']"] exI[of _ n])
             (simp add: posted_append trace_emit)
      qed
    qed
  qed
qed

lemma notify_unread_ok:
  assumes "\<forall>n u b. http_Post env n u b = (200, None)" "\<forall>n. sql_error env n = None"
    "3 \<le> length (unread_rows (db w))"
  shows "notify_unread env w =
     (\<lparr>db = fold update_read (map url (take 3 (unread_rows (db w)))) (db w),
       trace = trace w @ SqlQuery # replicate (length (unread_rows (db w))) SqlScan @
          concat (map (cycle_events env) (map url (take 3 (unread_rows (db w))))) @
          [Println ''finish'']\<rparr>, Inr ())"
  using assms(3)
  by (simp add: notify_unread_def query_unread_ok[OF assms(2)] notify_loop_ok[OF assms(1,2)]
      emit_def take_map)

section \<open>The save pass\<close>

lemma Contains_unique_message:
  "Contains ''UNIQUE constraint failed: articles.url, articles.title'' ''UNIQUE constraint failed''"
  by simp

lemma unique_failed_iff: "unique_failed a rows \<longleftrightarrow> url_title a \<in> set (map url_title rows)"
  by (induction rows) (auto simp: unique_failed_def url_title_def)

lemma exec_insert_cases:
  assumes "exec_insert env a rows w = (w1, err, rows1)"
  shows "w1 = emit (SqlExecInsert (title a) (url a) (date a)) w \<and>
     (rows1 = rows \<or>
      (err = None \<and> \<not> unique_failed a rows \<and>
       rows1 = rows @ [\<lparr>title = title a, url = url a, date = date a, read = False\<rparr>]))"
  using assms unfolding exec_insert_def sql_call_def
  by (auto split: option.splits if_splits)

lemma exec_insert_duplicate:
  assumes "unique_failed a rows" "sql_error env (length (trace w)) = None"
  shows "exec_insert env a rows w =
     (emit (SqlExecInsert (title a) (url a) (date a)) w,
      Some ''UNIQUE constraint failed: articles.url, articles.title'', rows)"
  using assms by (simp add: exec_insert_def sql_call_def)

lemma unique_rows_snoc:
  "unique_rows rows \<Longrightarrow> \<not> unique_failed a rows \<Longrightarrow>
   unique_rows (rows @ [\<lparr>title = title a, url = url a, date = date a, read = False\<rparr>])"
  by (auto simp: unique_rows_def unique_failed_iff url_title_def)

lemma insert_loop_result:
  "insert_loop env as rows w = (w', r) \<Longrightarrow>
   db w' = db w \<and>
   (\<exists>es. trace w' = trace w @ es \<and> posted es = []) \<and>
   (\<forall>rows'. r = Inr rows' \<longrightarrow>
      (\<exists>new. rows' = rows @ new) \<and> (unique_rows rows \<longrightarrow> unique_rows rows'))"
proof (induction as arbitrary: rows w)
  case Nil
  then show ?case by auto
next
  case (Cons a as)
  obtain w1 err rows1 where e: "exec_insert env a rows w = (w1, err, rows1)"
    by (cases "exec_insert env a rows w")
  let ?ev = "SqlExecInsert (title a) (url a) (date a)"
  from exec_insert_cases[OF e] have w1: "w1 = emit ?ev w" and
    rows1: "rows1 = rows \<or> (err = None \<and> \<not> unique_failed a rows \<and>
       rows1 = rows @ [\<lparr>title = title a, url = url a, date = date a, read = False\<rparr>])"
    by simp_all
  have grow: "\<exists>new. rows1 = rows @ new" using rows1 by auto
  have uniq: "unique_rows rows \<longrightarrow> unique_rows rows1"
    using rows1 unique_rows_snoc by auto
  show ?case
  proof (cases "\<exists>x. err = Some x \<and> \<not> Contains x ''UNIQUE constraint failed''")
    case True
    with e Cons.prems have "w' = w1" "\<exists>x. r = Inl x" by auto
    with w1 show ?thesis
      by (auto simp: db_emit trace_emit intro!: exI[of _ "[?ev]"])
  next
    case False
    with e Cons.prems have "insert_loop env as rows1 w1 = (w', r)"
      by (cases err) auto
    from Cons.IH[OF this] obtain es where
      d: "db w' = db w1" and t: "trace w' = trace w1 @ es" "posted es = []" and
      r: "\<forall>rows'. r = Inr rows' \<longrightarrow>
        (\<exists>new. rows' = rows1 @ new) \<and> (unique_rows rows1 \<longrightarrow> unique_rows rows')"
      by blast
    have "\<exists>es. trace w' = trace w @ es \<and> posted es = []"
      using t w1 by (intro exI[of _ "?ev # es"]) (simp add: trace_emit)
    moreover have "db w' = db w" using d w1 by (simp add: db_emit)
    moreover have "\<forall>rows'. r = Inr rows' \<longrightarrow>
      (\<exists>new. rows' = rows @ new) \<and> (unique_rows rows \<longrightarrow> unique_rows rows')"
      using r grow uniq by auto
    ultimately show ?thesis by blast
  qed
qed

lemma insert_loop_duplicate:
  assumes "unique_failed a rows" "sql_error env (length (trace w)) = None"
  shows "insert_loop env (a # as) rows w =
     insert_loop env as rows (emit (SqlExecInsert (title a) (url a) (date a)) w)"
  by (simp add: exec_insert_duplicate[OF assms])

lemma saveAllArticles_result:
  assumes "saveAllArticles env articles w = (w', r)"
  shows "(\<exists>es. trace w' = trace w @ es \<and> posted es = []) \<and>
     ((r = Inr None \<and> (\<exists>new. db w' = db w @ new) \<and> (unique_rows (db w) \<longrightarrow> unique_rows (db w'))) \<or>
      ((\<exists>x. r = Inl x) \<and> db w' = db w))"
proof (cases "sql_error env (length (trace w))")
  case (Some e)
  with assms have "w' = emit SqlBegin w" "r = Inl (Fatal e)"
    by (auto simp: saveAllArticles_def sql_call_def)
  then show ?thesis by (auto simp: db_emit trace_emit intro!: exI[of _ "[SqlBegin]"])
next
  case b: None
  let ?w1 = "emit SqlBegin w"
  show ?thesis
  proof (cases "sql_error env (length (trace ?w1))")
    case (Some e)
    with b assms have "w' = emit SqlPrepare ?w1" "r = Inl (Fatal e)"
      by (auto simp: saveAllArticles_def sql_call_def)
    then show ?thesis
      by (auto simp: db_emit trace_emit intro!: exI[of _ "[SqlBegin, SqlPrepare]"])
  next
    case p: None
    let ?w2 = "emit SqlPrepare ?w1"
    obtain w3 r3 where l: "insert_loop env articles (db ?w2) ?w2 = (w3, r3)"
      by (cases "insert_loop env articles (db ?w2) ?w2")
    from insert_loop_result[OF l] obtain es where
      d3: "db w3 = db w" and t3: "trace w3 = trace w @ [SqlBegin, SqlPrepare] @ es" "posted es = []" and
      r3: "\<forall>rows'. r3 = Inr rows' \<longrightarrow>
        (\<exists>new. rows' = db w @ new) \<and> (unique_rows (db w) \<longrightarrow> unique_rows rows')"
      by (auto simp: db_emit trace_emit)
    show ?thesis
    proof (cases r3)
      case (Inl x)
      with b p l assms have "w' = w3" "r = Inl x"
        by (auto simp: saveAllArticles_def sql_call_def)
      with d3 t3 show ?thesis
        by (auto intro!: exI[of _ "[SqlBegin, SqlPrepare] @ es"] simp: posted_append)
    next
      case (Inr rows')
      show ?thesis
      proof (cases "sql_error env (length (trace w3))")
        case (Some e)
        with b p l Inr assms have "w' = emit SqlCommit w3" "r = Inl (Fatal e)"
          by (auto simp: saveAllArticles_def sql_call_def)
        with d3 t3 show ?thesis
          by (auto intro!: exI[of _ "[SqlBegin, SqlPrepare] @ es @ [SqlCommit]"]
              simp: posted_append db_emit trace_emit)
      next
        case None
        with b p l Inr assms have "w' = (emit SqlCommit w3)\<lparr>db := rows'\<rparr>" "r = Inr None"
          by (auto simp: saveAllArticles_def sql_call_def)
        with d3 t3 r3 Inr show ?thesis
          by (auto intro!: exI[of _ "[SqlBegin, SqlPrepare] @ es @ [SqlCommit]"]
              simp: posted_append db_emit trace_emit)
      qed
    qed
  qed
qed

section \<open>The run as a whole\<close>

lemma fetchAllArticles_posted:
  assumes "fetchAllArticles env w = (w', r)"
  shows "\<exists>es. trace w' = trace w @ es \<and> posted es = []"
proof -
  obtain resp err where g: "http_Get env (baseURL env) = (resp, err)"
    by (cases "http_Get env (baseURL env)")
  let ?w1 = "emit (HttpGet (baseURL env)) w"
  let ?msg = "Println (''Error: status code '' @ Itoa (StatusCode resp))"
  have t1: "trace ?w1 = trace w @ [HttpGet (baseURL env)]" by (simp add: trace_emit)
  consider (stop) "w' = ?w1" | (status) "w' = emit ?msg ?w1"
    | (save) articles r2 where "saveAllArticles env articles ?w1 = (w', r2)"
    using assms g unfolding fetchAllArticles_def
    by (auto simp: Let_def split: option.splits if_splits sum.splits prod.splits)
  then show ?thesis
  proof cases
    case stop
    with t1 show ?thesis by (intro exI[of _ "[HttpGet (baseURL env)]"]) simp
  next
    case status
    with t1 show ?thesis
      by (intro exI[of _ "[HttpGet (baseURL env), ?msg]"]) (simp add: trace_emit)
  next
    case save
    from saveAllArticles_result[OF save] obtain es where
      "trace w' = trace ?w1 @ es" "posted es = []" by blast
    with t1 show ?thesis
      by (intro exI[of _ "HttpGet (baseURL env) # es"]) simp
  qed
qed

lemma fetch_unless_friday_posted:
  assumes "fetch_unless_friday env w = (w', r)"
  shows "posted (trace w') = posted (trace w)"
proof (cases "now_weekday env = Friday")
  case True
  with assms show ?thesis by (simp add: fetch_unless_friday_def)
next
  case False
  with assms have "fetchAllArticles env w = (w', r)" by (simp add: fetch_unless_friday_def)
  from fetchAllArticles_posted[OF this] show ?thesis by (auto simp: posted_append)
qed

lemma main_cases:
  assumes "main env w0 = (w', r)"
  obtains (aborted) a where "fetch_unless_friday env w0 = (w', Inl a)" "r = Inl a"
  | (notified) w where "fetch_unless_friday env w0 = (w, Inr ())" "notify_unread env w = (w', r)"
proof (cases "fetch_unless_friday env w0")
  case (Pair w x)
  show ?thesis
  proof (cases x)
    case (Inl a)
    with Pair assms have "w' = w" "r = Inl a" by (auto simp: main_def)
    with Pair Inl aborted show ?thesis by simp
  next
    case (Inr u)
    with Pair assms have "notify_unread env w = (w', r)" by (simp add: main_def)
    with Pair Inr notified show ?thesis by simp
  qed
qed

text \<open>
  C2: in every run, on every store, the urls sent to the webhook are those of at most
  three rows, and these rows followed by the remaining ones are exactly the unread
  rows of the store (as the fetch pass leaves it) in ascending date order: the rows
  processed are the earliest unread ones, in that order.  A run that reaches its end
  has processed exactly three.
\<close>

theorem notifier_selects_earliest:
  assumes "main env w0 = (w', r)"
  shows "\<exists>sel rest. posted (trace w') = posted (trace w0) @ map url sel \<and> length sel \<le> 3 \<and>
     mset (sel @ rest) = mset (filter (\<lambda>a. \<not> read a) (db (fst (fetch_unless_friday env w0)))) \<and>
     sorted (map date (sel @ rest)) \<and>
     (r = Inr () \<longrightarrow> length sel = 3)"
proof -
  let ?rows = "unread_rows (db (fst (fetch_unless_friday env w0)))"
  have all: "mset ?rows = mset (filter (\<lambda>a. \<not> read a) (db (fst (fetch_unless_friday env w0))))"
    "sorted (map date ?rows)"
    by (simp_all add: unread_rows_def)
  from assms show ?thesis
  proof (cases rule: main_cases)
    case (aborted a)
    then have "posted (trace w') = posted (trace w0)" by (simp add: fetch_unless_friday_posted)
    with all aborted show ?thesis
      by (intro exI[of _ "[]"] exI[of _ ?rows]) simp
  next
    case (notified w)
    from notify_unread_result[OF notified(2)] obtain es n where
      t: "trace w' = trace w @ SqlQuery # es" and n: "n \<le> 3" and
      p: "posted es = map url (take n (unread_rows (db w)))" and
      r: "r = Inr () \<longrightarrow> n = 3 \<and> 3 \<le> length (unread_rows (db w))"
      by blast
    have w: "fst (fetch_unless_friday env w0) = w" using notified(1) by simp
    have "posted (trace w') = posted (trace w0) @ map url (take n ?rows)"
      using t p fetch_unless_friday_posted[OF notified(1)] by (simp add: posted_append w)
    moreover have "length (take n ?rows) \<le> 3" using n by simp
    moreover have "r = Inr () \<longrightarrow> length (take n ?rows) = 3" using r by (simp add: w)
    moreover have "mset (take n ?rows @ drop n ?rows) = mset ?rows"
      "sorted (map date (take n ?rows @ drop n ?rows))"
      using all(2) by simp_all
    ultimately show ?thesis using all(1)
      by (intro exI[of _ "take n ?rows"] exI[of _ "drop n ?rows"]) simp
  qed
qed

lemmas run_defs = main_def fetch_unless_friday_def notify_unread_def query_unread_def
  sql_call_def emit_def unread_rows_def notifySlack_def markAsRead_def update_read_def
  start_def row_def

theorem notifier_selects_earliest_witness:
  "snd (main env_ok (start store5)) = Inr () \<and>
   posted (trace (fst (main env_ok (start store5))))
     = [''https://blog.example/a'', ''https://blog.example/b'', ''https://blog.example/c''] \<and>
   (\<exists>sel rest. posted (trace (fst (main env_ok (start store5))))
        = posted (trace (start store5)) @ map url sel \<and> length sel \<le> 3 \<and>
     mset (sel @ rest)
        = mset (filter (\<lambda>a. \<not> read a) (db (fst (fetch_unless_friday env_ok (start store5))))) \<and>
     sorted (map date (sel @ rest)) \<and> length sel = 3)"
proof -
  have s: "snd (main env_ok (start store5)) = Inr ()"
    by (simp add: run_defs env_ok_def store5_def)
  have p: "posted (trace (fst (main env_ok (start store5))))
     = [''https://blog.example/a'', ''https://blog.example/b'', ''https://blog.example/c'']"
    by (simp add: run_defs env_ok_def store5_def)
  have v: "main env_ok (start store5) = (fst (main env_ok (start store5)), Inr ())"
    using s by (metis prod.collapse)
  have "\<exists>sel rest. posted (trace (fst (main env_ok (start store5))))
        = posted (trace (start store5)) @ map url sel \<and> length sel \<le> 3 \<and>
     mset (sel @ rest)
        = mset (filter (\<lambda>a. \<not> read a) (db (fst (fetch_unless_friday env_ok (start store5))))) \<and>
     sorted (map date (sel @ rest)) \<and> length sel = 3"
    using notifier_selects_earliest[OF v] by simp
  with s p show ?thesis by blast
qed

text \<open>
  C10: when the query for unread articles returns fewer than three urls, taking the
  first three is out of range: the run ends in a panic right after the query and its
  scans, no request has been sent to the webhook, and the store is as it was, although
  the urls returned are the unread articles that were available.
\<close>

theorem fewer_than_three_unread_panics:
  assumes "fetch_unless_friday env w0 = (w, Inr ())"
    and "query_unread env w = (w1, Inr urls)"
    and "length urls < 3"
  shows "main env w0 = (w1, Inl (Panic ''slice bounds out of range [:3]'')) \<and>
     urls = map url (unread_rows (db w)) \<and> db w1 = db w \<and>
     trace w1 = trace w @ SqlQuery # replicate (length urls) SqlScan \<and>
     posted (trace w1) = posted (trace w0)"
proof -
  have m: "main env w0 = (w1, Inl (Panic ''slice bounds out of range [:3]''))"
    using assms by (simp add: main_def notify_unread_def)
  from query_unread_result[OF assms(2)] have
    q: "urls = map url (unread_rows (db w))" "db w1 = db w"
      "trace w1 = trace w @ SqlQuery # replicate (length urls) SqlScan"
    by simp_all
  have "posted (replicate k SqlScan) = []" for k by (induction k) simp_all
  with q(3) fetch_unless_friday_posted[OF assms(1)]
  have "posted (trace w1) = posted (trace w0)" by (simp add: posted_append)
  with m q show ?thesis by simp
qed

theorem fewer_than_three_unread_panics_witness:
  "main env_ok (start store2) =
     (\<lparr>db = store2, trace = [SqlQuery, SqlScan, SqlScan]\<rparr>,
      Inl (Panic ''slice bounds out of range [:3]'')) \<and>
   map url (unread_rows store2) = [''https://blog.example/a'', ''https://blog.example/b'']"
proof -
  let ?urls = "[''https://blog.example/a'', ''https://blog.example/b'']"
  have f: "fetch_unless_friday env_ok (start store2) = (start store2, Inr ())"
    by (simp add: fetch_unless_friday_def env_ok_def)
  have q: "query_unread env_ok (start store2) =
      (\<lparr>db = store2, trace = [SqlQuery, SqlScan, SqlScan]\<rparr>, Inr ?urls)"
    by (simp add: run_defs env_ok_def store2_def)
  have l: "length ?urls < 3" by simp
  from fewer_than_three_unread_panics[OF f q l] show ?thesis
    by (simp add: start_def)
qed

section \<open>The fetch decision and the listing request\<close>

lemma update_read_columns:
  "map title (update_read u rows) = map title rows"
  "map url (update_read u rows) = map url rows"
  "map date (update_read u rows) = map date rows"
  by (simp_all add: update_read_def)

lemma notify_loop_columns:
  "notify_loop env us w = (w', r) \<Longrightarrow>
   map title (db w') = map title (db w) \<and> map url (db w') = map url (db w) \<and>
   map date (db w') = map date (db w)"
proof (induction us arbitrary: w)
  case Nil
  then show ?case by simp
next
  case (Cons u us)
  obtain w1 r1 where n: "notifySlack env u w = (w1, r1)" by (cases "notifySlack env u w")
  obtain w2 r2 where m: "markAsRead env u w1 = (w2, r2)" by (cases "markAsRead env u w1")
  from notifySlack_result[OF n] have d1: "db w1 = db w" and
    r1: "r1 = Inr None \<or> (\<exists>e. r1 = Inl (Fatal e))" by simp_all
  from markAsRead_result[OF m] have
    r2: "(r2 = Inr None \<and> db w2 = update_read u (db w1)) \<or> ((\<exists>e. r2 = Inl (Fatal e)) \<and> db w2 = db w1)"
    by simp
  then have c2: "map title (db w2) = map title (db w)" "map url (db w2) = map url (db w)"
    "map date (db w2) = map date (db w)"
    using d1 by (auto simp: update_read_columns)
  show ?case
  proof (cases "r1 = Inr None")
    case False
    with r1 n Cons.prems have "w' = w1" by auto
    with d1 show ?thesis by simp
  next
    case True
    show ?thesis
    proof (cases "r2 = Inr None")
      case False
      with r2 n m True Cons.prems have "w' = w2" by auto
      with c2 show ?thesis by simp
    next
      case r2ok: True
      with n m True Cons.prems have "notify_loop env us w2 = (w', r)" by simp
      from Cons.IH[OF this] c2 show ?thesis by simp
    qed
  qed
qed

lemma notify_unread_columns:
  assumes "notify_unread env w = (w', r)"
  shows "map title (db w') = map title (db w) \<and> map url (db w') = map url (db w) \<and>
   map date (db w') = map date (db w)"
proof -
  obtain w1 r1 where q: "query_unread env w = (w1, r1)" by (cases "query_unread env w")
  from query_unread_result[OF q] have d1: "db w1 = db w" by simp
  show ?thesis
  proof (cases r1)
    case (Inl a)
    with q assms have "w' = w1" by (auto simp: notify_unread_def)
    with d1 show ?thesis by simp
  next
    case (Inr urls)
    show ?thesis
    proof (cases "length urls < 3")
      case True
      with q Inr assms have "w' = w1" by (auto simp: notify_unread_def)
      with d1 show ?thesis by simp
    next
      case False
      obtain w2 r2 where l: "notify_loop env (take 3 urls) w1 = (w2, r2)"
        by (cases "notify_loop env (take 3 urls) w1")
      from notify_loop_columns[OF l] d1 have
        c: "map title (db w2) = map title (db w) \<and> map url (db w2) = map url (db w) \<and>
          map date (db w2) = map date (db w)" by simp
      from q Inr False l assms have "w' = w2 \<or> w' = emit (Println ''finish'') w2"
        by (auto simp: notify_unread_def split: sum.splits)
      with c show ?thesis by (auto simp: db_emit)
    qed
  qed
qed

text \<open>
  C6: on a Friday the run is the notify step alone: it begins with the query for
  unread articles, it performs no request to the listing page and no insert, and it
  leaves the titles, urls and dates of the table as they were.
\<close>

theorem friday_skips_fetch:
  assumes "now_weekday env = Friday" and "main env w = (w', r)"
  shows "notify_unread env w = (w', r) \<and>
     (\<exists>es. trace w' = trace w @ SqlQuery # es \<and> list_all (\<lambda>e. \<not> fetch_event e) es) \<and>
     map title (db w') = map title (db w) \<and> map url (db w') = map url (db w) \<and>
     map date (db w') = map date (db w)"
proof -
  have n: "notify_unread env w = (w', r)"
    using assms by (simp add: main_def fetch_unless_friday_def)
  from notify_unread_result[OF n] have
    "\<exists>es. trace w' = trace w @ SqlQuery # es \<and> list_all (\<lambda>e. \<not> fetch_event e) es"
    by blast
  with n notify_unread_columns[OF n] show ?thesis by simp
qed

theorem friday_skips_fetch_witness:
  "now_weekday env_ok = Friday \<and>
   main env_ok (start store3) = notify_unread env_ok (start store3) \<and>
   (\<exists>es. trace (fst (main env_ok (start store3))) = trace (start store3) @ SqlQuery # es \<and>
      list_all (\<lambda>e. \<not> fetch_event e) es) \<and>
   length (db (fst (main env_ok (start store3)))) = 3 \<and>
   posted (trace (fst (main env_ok (start store3)))) = map url store3"
proof -
  have f: "now_weekday env_ok = Friday" by (simp add: env_ok_def)
  have p: "posted (trace (fst (main env_ok (start store3)))) = map url store3"
    by (simp add: run_defs env_ok_def store3_def)
  have l: "length (db (fst (main env_ok (start store3)))) = 3"
    by (simp add: run_defs env_ok_def store3_def)
  from friday_skips_fetch[OF f prod.collapse[symmetric]] have
    "notify_unread env_ok (start store3) = main env_ok (start store3)"
    "\<exists>es. trace (fst (main env_ok (start store3))) = trace (start store3) @ SqlQuery # es \<and>
      list_all (\<lambda>e. \<not> fetch_event e) es"
    by simp_all
  with f p l show ?thesis by simp
qed

text \<open>
  C8: when the listing page answers with a status other than 200, the fetch pass
  returns after the request and one printed message: nothing is parsed, no statement
  reaches the store, the process is not ended, and on a day other than Friday the run
  goes on with the notify step.
\<close>

theorem listing_non_200_continues:
  assumes "http_Get env (baseURL env) = (resp, None)" and "StatusCode resp \<noteq> 200"
  shows "fetchAllArticles env w =
       (w\<lparr>trace := trace w @ [HttpGet (baseURL env),
            Println (''Error: status code '' @ Itoa (StatusCode resp))]\<rparr>, Inr ()) \<and>
     (now_weekday env \<noteq> Friday \<longrightarrow>
        main env w = notify_unread env
          (w\<lparr>trace := trace w @ [HttpGet (baseURL env),
            Println (''Error: status code '' @ Itoa (StatusCode resp))]\<rparr>))"
proof -
  have f: "fetchAllArticles env w =
       (w\<lparr>trace := trace w @ [HttpGet (baseURL env),
            Println (''Error: status code '' @ Itoa (StatusCode resp))]\<rparr>, Inr ())"
    using assms by (simp add: fetchAllArticles_def emit_def)
  then show ?thesis by (simp add: main_def fetch_unless_friday_def)
qed

lemma Itoa_503: "Itoa 503 = ''503''"
  by code_simp

lemma Itoa_500: "Itoa 500 = ''500''"
  by code_simp

theorem listing_non_200_continues_witness:
  "fetchAllArticles env_503 (start store3) =
     (\<lparr>db = store3, trace = [HttpGet ''https://blog.example/articles'',
          Println ''Error: status code 503'']\<rparr>, Inr ()) \<and>
   main env_503 (start store3) =
     notify_unread env_503 \<lparr>db = store3, trace = [HttpGet ''https://blog.example/articles'',
          Println ''Error: status code 503'']\<rparr> \<and>
   snd (main env_503 (start store3)) = Inr ()"
proof -
  have g: "http_Get env_503 (baseURL env_503) = (\<lparr>StatusCode = 503, Body = None\<rparr>, None)"
    by (simp add: env_503_def env_ok_def)
  have s: "StatusCode \<lparr>StatusCode = 503, Body = None\<rparr> \<noteq> 200" by simp
  have d: "now_weekday env_503 \<noteq> Friday" "baseURL env_503 = ''https://blog.example/articles''"
    by (simp_all add: env_503_def env_ok_def)
  have r: "snd (main env_503 (start store3)) = Inr ()"
    by (simp add: run_defs fetchAllArticles_def env_503_def env_ok_def store3_def)
  from listing_non_200_continues[OF g s, of "start store3"] d r show ?thesis
    by (simp add: start_def Itoa_503)
qed

section \<open>A webhook answer other than 200\<close>

text \<open>
  C1: the run on three unread rows with a webhook that answers 500 to every
  request.  Each request is followed by the printed status and then by the update
  transaction: \<open>notifySlack\<close> returns the \<^verbatim>\<open>nil\<close> error of the request, so the
  caller sees no error, all three rows end up read and the run finishes.
\<close>

theorem webhook_500_marks_read:
  "main env_500 (start store3) =
     (\<lparr>db = [row ''A'' ''https://blog.example/a'' ''2023-01-01'' True,
             row ''B'' ''https://blog.example/b'' ''2023-01-02'' True,
             row ''C'' ''https://blog.example/c'' ''2023-01-03'' True],
       trace = [SqlQuery, SqlScan, SqlScan, SqlScan,
          HttpPost ''https://hooks.example/services/T'' ''https://blog.example/a'',
          Println ''Error: status code 500'',
          SqlBegin, SqlPrepare, SqlExecUpdate ''https://blog.example/a'', SqlCommit,
          HttpPost ''https://hooks.example/services/T'' ''https://blog.example/b'',
          Println ''Error: status code 500'',
          SqlBegin, SqlPrepare, SqlExecUpdate ''https://blog.example/b'', SqlCommit,
          HttpPost ''https://hooks.example/services/T'' ''https://blog.example/c'',
          Println ''Error: status code 500'',
          SqlBegin, SqlPrepare, SqlExecUpdate ''https://blog.example/c'', SqlCommit,
          Println ''finish'']\<rparr>, Inr ())"
  by (simp add: run_defs env_500_def env_ok_def store3_def Itoa_500)

section \<open>Marking as read\<close>

lemma read_update_True_neq:
  "a\<lparr>read := True\<rparr> \<noteq> a \<longleftrightarrow> \<not> read a"
  "a \<noteq> a\<lparr>read := True\<rparr> \<longleftrightarrow> \<not> read a"
  by (cases a; auto)+

lemma changed_rows_update_read:
  "changed_rows rows (update_read u rows) = length (filter (\<lambda>a. url a = u \<and> \<not> read a) rows)"
  by (induction rows) (auto simp: changed_rows_def update_read_def read_update_True_neq)

text \<open>
  C9, as stated, fails: the constraint of the schema is on the pair of url and title,
  so two rows can carry the same url, and a successful mark-as-read of that url sets
  the flag of both.
\<close>

theorem markAsRead_same_url_counterexample:
  "markAsRead env_ok ''https://blog.example/foo'' (start store_same_url) =
     (\<lparr>db = [row ''Foo'' ''https://blog.example/foo'' ''2023-01-01'' True,
             row ''Foo (updated)'' ''https://blog.example/foo'' ''2023-01-02'' True],
       trace = [SqlBegin, SqlPrepare, SqlExecUpdate ''https://blog.example/foo'', SqlCommit]\<rparr>,
      Inr None) \<and>
   changed_rows store_same_url
     [row ''Foo'' ''https://blog.example/foo'' ''2023-01-01'' True,
      row ''Foo (updated)'' ''https://blog.example/foo'' ''2023-01-02'' True] = 2"
  by (simp add: run_defs env_ok_def store_same_url_def changed_rows_def)

text \<open>
  C9, amended: after a successful mark-as-read of a url the table has the same rows
  in the same order, every row keeps its title, url and date, the read flag of a row
  is true exactly when it was true before or the row carries that url, and the rows
  that changed are the unread rows with that url (one row when the url occurs once
  among them).
\<close>

theorem markAsRead_frame:
  assumes "markAsRead env u w = (w', Inr None)"
  shows "length (db w') = length (db w) \<and>
     (\<forall>i < length (db w).
        title (db w' ! i) = title (db w ! i) \<and> url (db w' ! i) = url (db w ! i) \<and>
        date (db w' ! i) = date (db w ! i) \<and>
        read (db w' ! i) = (read (db w ! i) \<or> url (db w ! i) = u)) \<and>
     changed_rows (db w) (db w') = length (filter (\<lambda>a. url a = u \<and> \<not> read a) (db w))"
proof -
  from markAsRead_result[OF assms] have d: "db w' = update_read u (db w)" by simp
  have "length (update_read u (db w)) = length (db w)" by (simp add: update_read_def)
  moreover have "\<forall>i < length (db w).
        title (update_read u (db w) ! i) = title (db w ! i) \<and>
        url (update_read u (db w) ! i) = url (db w ! i) \<and>
        date (update_read u (db w) ! i) = date (db w ! i) \<and>
        read (update_read u (db w) ! i) = (read (db w ! i) \<or> url (db w ! i) = u)"
    by (simp add: update_read_def)
  ultimately show ?thesis
    unfolding d by (simp add: changed_rows_update_read)
qed

theorem markAsRead_frame_witness:
  "snd (markAsRead env_ok ''https://blog.example/b'' (start store3)) = Inr None \<and>
   db (fst (markAsRead env_ok ''https://blog.example/b'' (start store3))) =
     [row ''A'' ''https://blog.example/a'' ''2023-01-01'' False,
      row ''B'' ''https://blog.example/b'' ''2023-01-02'' True,
      row ''C'' ''https://blog.example/c'' ''2023-01-03'' False] \<and>
   changed_rows (db (start store3))
     (db (fst (markAsRead env_ok ''https://blog.example/b'' (start store3)))) = 1"
proof -
  have v: "markAsRead env_ok ''https://blog.example/b'' (start store3) =
      (fst (markAsRead env_ok ''https://blog.example/b'' (start store3)), Inr None)"
    by (simp add: run_defs env_ok_def)
  have d: "db (fst (markAsRead env_ok ''https://blog.example/b'' (start store3))) =
     [row ''A'' ''https://blog.example/a'' ''2023-01-01'' False,
      row ''B'' ''https://blog.example/b'' ''2023-01-02'' True,
      row ''C'' ''https://blog.example/c'' ''2023-01-03'' False]"
    by (simp add: run_defs env_ok_def store3_def)
  have f: "length (filter (\<lambda>a. url a = ''https://blog.example/b'' \<and> \<not> read a) (db (start store3))) = 1"
    by (simp add: start_def store3_def row_def)
  have s: "snd (markAsRead env_ok ''https://blog.example/b'' (start store3)) = Inr None"
    using v by (metis snd_conv)
  from markAsRead_frame[OF v] f have
    "changed_rows (db (start store3))
       (db (fst (markAsRead env_ok ''https://blog.example/b'' (start store3)))) = 1"
    by simp
  with s d show ?thesis by simp
qed

lemma update_read_marked:
  "list_all (\<lambda>a. url a = u \<longrightarrow> read a) (update_read u rows)"
  by (induction rows) (simp_all add: update_read_def)

lemma update_read_keeps_marked:
  "list_all (\<lambda>a. url a = u \<longrightarrow> read a) rows \<Longrightarrow>
   list_all (\<lambda>a. url a = u \<longrightarrow> read a) (update_read v rows)"
  by (induction rows) (simp_all add: update_read_def)

lemma notify_loop_keeps_marked:
  "notify_loop env us w = (w', r) \<Longrightarrow> list_all (\<lambda>a. url a = u \<longrightarrow> read a) (db w) \<Longrightarrow>
   list_all (\<lambda>a. url a = u \<longrightarrow> read a) (db w')"
proof (induction us arbitrary: w)
  case Nil
  then show ?case by simp
next
  case (Cons v us)
  obtain w1 r1 where n: "notifySlack env v w = (w1, r1)" by (cases "notifySlack env v w")
  obtain w2 r2 where m: "markAsRead env v w1 = (w2, r2)" by (cases "markAsRead env v w1")
  from notifySlack_result[OF n] have d1: "db w1 = db w" and
    r1: "r1 = Inr None \<or> (\<exists>e. r1 = Inl (Fatal e))" by simp_all
  from markAsRead_result[OF m] have
    r2: "(r2 = Inr None \<and> db w2 = update_read v (db w1)) \<or> ((\<exists>e. r2 = Inl (Fatal e)) \<and> db w2 = db w1)"
    by simp
  have k1: "list_all (\<lambda>a. url a = u \<longrightarrow> read a) (db w1)" using Cons.prems(2) d1 by simp
  have k2: "list_all (\<lambda>a. url a = u \<longrightarrow> read a) (db w2)"
  proof (cases "db w2 = db w1")
    case True
    with k1 show ?thesis by simp
  next
    case False
    with r2 have "db w2 = update_read v (db w1)" by blast
    with update_read_keeps_marked[OF k1, of v] show ?thesis by simp
  qed
  show ?case
  proof (cases "r1 = Inr None")
    case False
    with r1 n Cons.prems(1) have "w' = w1" by auto
    with k1 show ?thesis by simp
  next
    case True
    show ?thesis
    proof (cases "r2 = Inr None")
      case False
      with r2 n m True Cons.prems(1) have "w' = w2" by auto
      with k2 show ?thesis by simp
    next
      case r2ok: True
      with n m True Cons.prems(1) have "notify_loop env us w2 = (w', r)" by simp
      from Cons.IH[OF this k2] show ?thesis .
    qed
  qed
qed

text \<open>
  C7: after a notify-and-mark cycle for a url has succeeded, a query for unread
  articles at any later point of the loop, whatever the loop did in between and
  however it ended, does not return that url.
\<close>

theorem marked_url_not_unread_again:
  assumes "notifySlack env u w = (w1, Inr None)"
    and "markAsRead env u w1 = (w2, Inr None)"
    and "notify_loop env us w2 = (w3, r)"
    and "query_unread env w3 = (w4, Inr urls)"
  shows "u \<notin> set urls"
proof -
  from markAsRead_result[OF assms(2)] have "db w2 = update_read u (db w1)" by simp
  then have "list_all (\<lambda>a. url a = u \<longrightarrow> read a) (db w2)"
    using update_read_marked[of u "db w1"] by simp
  from notify_loop_keeps_marked[OF assms(3) this]
  have k: "list_all (\<lambda>a. url a = u \<longrightarrow> read a) (db w3)" .
  from query_unread_result[OF assms(4)] have "urls = map url (unread_rows (db w3))" by simp
  with k show ?thesis by (auto simp: unread_rows_def list_all_iff)
qed

theorem marked_url_not_unread_again_witness:
  "snd (query_unread env_ok
     (fst (notify_loop env_ok [''https://blog.example/b'']
       (fst (markAsRead env_ok ''https://blog.example/a''
         (fst (notifySlack env_ok ''https://blog.example/a'' (start store3))))))))
     = Inr [''https://blog.example/c''] \<and>
   ''https://blog.example/a'' \<notin> set [''https://blog.example/c'']"
proof -
  let ?a = "''https://blog.example/a''"
  let ?w1 = "fst (notifySlack env_ok ?a (start store3))"
  let ?w2 = "fst (markAsRead env_ok ?a ?w1)"
  let ?w3 = "fst (notify_loop env_ok [''https://blog.example/b''] ?w2)"
  let ?w4 = "fst (query_unread env_ok ?w3)"
  have n: "notifySlack env_ok ?a (start store3) = (?w1, Inr None)"
    by (simp add: run_defs env_ok_def)
  have m: "markAsRead env_ok ?a ?w1 = (?w2, Inr None)"
    by (simp add: run_defs env_ok_def)
  have l: "notify_loop env_ok [''https://blog.example/b''] ?w2
      = (?w3, snd (notify_loop env_ok [''https://blog.example/b''] ?w2))"
    by simp
  have q: "query_unread env_ok ?w3 = (?w4, Inr [''https://blog.example/c''])"
    by (simp add: run_defs env_ok_def store3_def)
  have s: "snd (query_unread env_ok ?w3) = Inr [''https://blog.example/c'']"
    using q by (metis snd_conv)
  have "?a \<notin> set [''https://blog.example/c'']"
    by (rule marked_url_not_unread_again[OF n m l q])
  with s show ?thesis by (rule conjI)
qed

section \<open>The scenario of five unread rows\<close>

lemma fold_update_read:
  "fold update_read us rows = map (\<lambda>a. if url a \<in> set us then a\<lparr>read := True\<rparr> else a) rows"
proof (induction us arbitrary: rows)
  case Nil
  show ?case by simp
next
  case (Cons u us)
  have "fold update_read (u # us) rows = fold update_read us (update_read u rows)" by simp
  also have "\<dots> = map (\<lambda>a. if url a \<in> set us then a\<lparr>read := True\<rparr> else a) (update_read u rows)"
    by (rule Cons.IH)
  also have "\<dots> = map (\<lambda>a. if url a \<in> set (u # us) then a\<lparr>read := True\<rparr> else a) rows"
    by (induction rows) (simp_all add: update_read_def)
  finally show ?case .
qed

lemma read_update_True_id: "read a \<Longrightarrow> a\<lparr>read := True\<rparr> = a"
  by (cases a) simp

lemma length5:
  "length s = 5 \<Longrightarrow> \<exists>a b c d e. s = [a, b, c, d, e]"
proof -
  assume "length s = 5"
  then have "length s = Suc (Suc (Suc (Suc (Suc 0))))" by simp
  then show ?thesis by (clarsimp simp: length_Suc_conv)
qed


lemma posted_scans: "posted (replicate k SqlScan) = []"
  by (induction k) simp_all

lemma set_unread_rows: "set (unread_rows rows) = {a \<in> set rows. \<not> read a}"
  by (simp add: unread_rows_def)

text \<open>
  C5, as stated, fails: the five rows of the scenario may share a url (the constraint
  of the schema is on url and title together), and the update that marks the row
  dated 2023-01-01 then also marks the row dated 2023-01-04, which was not sent to
  the webhook: four rows end up read.
\<close>

theorem five_unread_rows_retitled_counterexample:
  "main env_ok (start store5_retitled) =
     (\<lparr>db = [row ''A'' ''https://blog.example/a'' ''2023-01-01'' True,
             row ''B'' ''https://blog.example/b'' ''2023-01-02'' True,
             row ''C'' ''https://blog.example/c'' ''2023-01-03'' True,
             row ''A (updated)'' ''https://blog.example/a'' ''2023-01-04'' True,
             row ''E'' ''https://blog.example/e'' ''2023-01-05'' False],
       trace = [SqlQuery, SqlScan, SqlScan, SqlScan, SqlScan, SqlScan,
          HttpPost ''https://hooks.example/services/T'' ''https://blog.example/a'',
          SqlBegin, SqlPrepare, SqlExecUpdate ''https://blog.example/a'', SqlCommit,
          HttpPost ''https://hooks.example/services/T'' ''https://blog.example/b'',
          SqlBegin, SqlPrepare, SqlExecUpdate ''https://blog.example/b'', SqlCommit,
          HttpPost ''https://hooks.example/services/T'' ''https://blog.example/c'',
          SqlBegin, SqlPrepare, SqlExecUpdate ''https://blog.example/c'', SqlCommit,
          Println ''finish'']\<rparr>, Inr ())"
  by (simp add: run_defs env_ok_def store5_retitled_def)

text \<open>
  C5, amended: when, at the query, the unread rows of the store are five rows dated
  2023-01-01 to 2023-01-05 with five different urls, every request to the webhook is
  answered with status 200 and the storage engine reports no error, the run reaches
  its end, sends exactly three requests, for the rows dated 2023-01-01, 2023-01-02 and
  2023-01-03 in this order, and leaves exactly these three rows with the read flag
  set, every other row being as before.
\<close>

theorem five_unread_rows_scenario:
  assumes f: "fetch_unless_friday env w0 = (w, Inr ())"
    and d: "map date (unread_rows (db w)) =
      [''2023-01-01'', ''2023-01-02'', ''2023-01-03'', ''2023-01-04'', ''2023-01-05'']"
    and u: "distinct (map url (unread_rows (db w)))"
    and p: "\<forall>n u b. http_Post env n u b = (200, None)"
    and s: "\<forall>n. sql_error env n = None"
  shows "\<exists>w'. main env w0 = (w', Inr ()) \<and>
     posted (trace w') = posted (trace w0) @ map url (take 3 (unread_rows (db w))) \<and>
     map date (take 3 (unread_rows (db w))) = [''2023-01-01'', ''2023-01-02'', ''2023-01-03''] \<and>
     db w' = map (\<lambda>a. if \<not> read a \<and> date a \<in> {''2023-01-01'', ''2023-01-02'', ''2023-01-03''}
                       then a\<lparr>read := True\<rparr> else a) (db w)"
proof -
  let ?rs = "unread_rows (db w)"
  from d have "length (map date ?rs) = 5" by simp
  then have "length ?rs = 5" by simp
  then obtain r1 r2 r3 r4 r5 where rs: "?rs = [r1, r2, r3, r4, r5]"
    using length5 by blast
  from d rs have dates: "date r1 = ''2023-01-01''" "date r2 = ''2023-01-02''"
    "date r3 = ''2023-01-03''" "date r4 = ''2023-01-04''" "date r5 = ''2023-01-05''"
    by simp_all
  from u rs have urls: "url r4 \<noteq> url r1" "url r4 \<noteq> url r2" "url r4 \<noteq> url r3"
    "url r5 \<noteq> url r1" "url r5 \<noteq> url r2" "url r5 \<noteq> url r3"
    by auto
  let ?us = "map url (take 3 ?rs)"
  have us: "?us = [url r1, url r2, url r3]" by (simp add: rs)
  let ?w' = "\<lparr>db = fold update_read ?us (db w),
       trace = trace w @ SqlQuery # replicate (length ?rs) SqlScan @
          concat (map (cycle_events env) ?us) @ [Println ''finish'']\<rparr>"
  have len: "3 \<le> length ?rs" by (simp add: rs)
  have n: "notify_unread env w = (?w', Inr ())"
    by (rule notify_unread_ok[OF p s len])
  with f have m: "main env w0 = (?w', Inr ())" by (simp add: main_def)
  have po: "posted (trace ?w') = posted (trace w0) @ ?us"
    using fetch_unless_friday_posted[OF f]
    by (simp add: rs posted_append posted_scans cycle_events_def)
  have dt: "map date (take 3 ?rs) = [''2023-01-01'', ''2023-01-02'', ''2023-01-03'']"
    by (simp add: rs dates)
  have mem: "a \<in> set (db w) \<Longrightarrow> \<not> read a \<Longrightarrow> a \<in> {r1, r2, r3, r4, r5}" for a
    using set_unread_rows[of "db w"] rs by auto
  have "db ?w' = map (\<lambda>a. if url a \<in> set ?us then a\<lparr>read := True\<rparr> else a) (db w)"
    by (simp add: fold_update_read del: take_map)
  also have "\<dots> = map (\<lambda>a. if \<not> read a \<and> date a \<in> {''2023-01-01'', ''2023-01-02'', ''2023-01-03''}
                       then a\<lparr>read := True\<rparr> else a) (db w)"
  proof (rule map_cong[OF refl])
    fix a
    assume a: "a \<in> set (db w)"
    show "(if url a \<in> set ?us then a\<lparr>read := True\<rparr> else a) =
      (if \<not> read a \<and> date a \<in> {''2023-01-01'', ''2023-01-02'', ''2023-01-03''}
       then a\<lparr>read := True\<rparr> else a)"
    proof (cases "read a")
      case True
      then show ?thesis by (simp add: read_update_True_id)
    next
      case False
      with mem[OF a] have "a = r1 \<or> a = r2 \<or> a = r3 \<or> a = r4 \<or> a = r5" by simp
      then show ?thesis
        using False dates urls unfolding us by (elim disjE) simp_all
    qed
  qed
  finally have db: "db ?w' = map (\<lambda>a. if \<not> read a \<and> date a \<in> {''2023-01-01'', ''2023-01-02'', ''2023-01-03''}
                       then a\<lparr>read := True\<rparr> else a) (db w)" .
  show ?thesis
  proof (intro exI conjI)
    show "main env w0 = (?w', Inr ())" by (rule m)
    show "posted (trace ?w') = posted (trace w0) @ ?us" by (rule po)
    show "map date (take 3 ?rs) = [''2023-01-01'', ''2023-01-02'', ''2023-01-03'']" by (rule dt)
    show "db ?w' = map (\<lambda>a. if \<not> read a \<and> date a \<in> {''2023-01-01'', ''2023-01-02'', ''2023-01-03''}
                       then a\<lparr>read := True\<rparr> else a) (db w)" by (rule db)
  qed
qed


theorem five_unread_rows_scenario_witness:
  "main env_ok (start store5) =
     (\<lparr>db = [row ''D'' ''https://blog.example/d'' ''2023-01-04'' False,
             row ''B'' ''https://blog.example/b'' ''2023-01-02'' True,
             row ''E'' ''https://blog.example/e'' ''2023-01-05'' False,
             row ''A'' ''https://blog.example/a'' ''2023-01-01'' True,
             row ''C'' ''https://blog.example/c'' ''2023-01-03'' True],
       trace = [SqlQuery, SqlScan, SqlScan, SqlScan, SqlScan, SqlScan,
          HttpPost ''https://hooks.example/services/T'' ''https://blog.example/a'',
          SqlBegin, SqlPrepare, SqlExecUpdate ''https://blog.example/a'', SqlCommit,
          HttpPost ''https://hooks.example/services/T'' ''https://blog.example/b'',
          SqlBegin, SqlPrepare, SqlExecUpdate ''https://blog.example/b'', SqlCommit,
          HttpPost ''https://hooks.example/services/T'' ''https://blog.example/c'',
          SqlBegin, SqlPrepare, SqlExecUpdate ''https://blog.example/c'', SqlCommit,
          Println ''finish'']\<rparr>, Inr ()) \<and>
   (\<exists>w'. main env_ok (start store5) = (w', Inr ()) \<and>
     posted (trace w') = posted (trace (start store5)) @
        map url (take 3 (unread_rows (db (start store5)))) \<and>
     map date (take 3 (unread_rows (db (start store5)))) =
        [''2023-01-01'', ''2023-01-02'', ''2023-01-03''] \<and>
     db w' = map (\<lambda>a. if \<not> read a \<and> date a \<in> {''2023-01-01'', ''2023-01-02'', ''2023-01-03''}
                       then a\<lparr>read := True\<rparr> else a) (db (start store5)))"
proof -
  have f: "fetch_unless_friday env_ok (start store5) = (start store5, Inr ())"
    by (simp add: fetch_unless_friday_def env_ok_def)
  have rows: "unread_rows (db (start store5)) =
      [row ''A'' ''https://blog.example/a'' ''2023-01-01'' False,
       row ''B'' ''https://blog.example/b'' ''2023-01-02'' False,
       row ''C'' ''https://blog.example/c'' ''2023-01-03'' False,
       row ''D'' ''https://blog.example/d'' ''2023-01-04'' False,
       row ''E'' ''https://blog.example/e'' ''2023-01-05'' False]"
    by (simp add: unread_rows_def start_def store5_def row_def)
  have d: "map date (unread_rows (db (start store5))) =
      [''2023-01-01'', ''2023-01-02'', ''2023-01-03'', ''2023-01-04'', ''2023-01-05'']"
    by (simp add: rows) (simp add: row_def)
  have u: "distinct (map url (unread_rows (db (start store5))))"
    by (simp add: rows) (simp add: row_def)
  have p: "\<forall>n u b. http_Post env_ok n u b = (200, None)" by (simp add: env_ok_def)
  have s: "\<forall>n. sql_error env_ok n = None" by (simp add: env_ok_def)
  have e: "main env_ok (start store5) =
     (\<lparr>db = [row ''D'' ''https://blog.example/d'' ''2023-01-04'' False,
             row ''B'' ''https://blog.example/b'' ''2023-01-02'' True,
             row ''E'' ''https://blog.example/e'' ''2023-01-05'' False,
             row ''A'' ''https://blog.example/a'' ''2023-01-01'' True,
             row ''C'' ''https://blog.example/c'' ''2023-01-03'' True],
       trace = [SqlQuery, SqlScan, SqlScan, SqlScan, SqlScan, SqlScan,
          HttpPost ''https://hooks.example/services/T'' ''https://blog.example/a'',
          SqlBegin, SqlPrepare, SqlExecUpdate ''https://blog.example/a'', SqlCommit,
          HttpPost ''https://hooks.example/services/T'' ''https://blog.example/b'',
          SqlBegin, SqlPrepare, SqlExecUpdate ''https://blog.example/b'', SqlCommit,
          HttpPost ''https://hooks.example/services/T'' ''https://blog.example/c'',
          SqlBegin, SqlPrepare, SqlExecUpdate ''https://blog.example/c'', SqlCommit,
          Println ''finish'']\<rparr>, Inr ())"
    by (simp add: run_defs env_ok_def store5_def)
  have "\<exists>w'. main env_ok (start store5) = (w', Inr ()) \<and>
     posted (trace w') = posted (trace (start store5)) @
        map url (take 3 (unread_rows (db (start store5)))) \<and>
     map date (take 3 (unread_rows (db (start store5)))) =
        [''2023-01-01'', ''2023-01-02'', ''2023-01-03''] \<and>
     db w' = map (\<lambda>a. if \<not> read a \<and> date a \<in> {''2023-01-01'', ''2023-01-02'', ''2023-01-03''}
                       then a\<lparr>read := True\<rparr> else a) (db (start store5))"
    by (rule five_unread_rows_scenario[OF f d u p s])
  with e show ?thesis by (rule conjI)
qed

section \<open>Uniqueness of url and title\<close>

lemma distinct_count_list_1: "distinct xs \<Longrightarrow> x \<in> set xs \<Longrightarrow> count_list xs x = 1"
  by (induction xs) auto

text \<open>
  C3: a save pass, whatever its articles and however it ends, keeps the pairs of url
  and title of the table distinct and keeps every row that was there; a pair of the
  pass that was already present is afterwards still present exactly once; and an
  insert whose pair is among the rows of the transaction is skipped without an error
  for the caller: the loop goes on with the next article on the same rows.
\<close>

theorem save_pass_keeps_unique:
  assumes "unique_rows (db w)" and "saveAllArticles env articles w = (w', r)"
  shows "unique_rows (db w') \<and> (\<exists>new. db w' = db w @ new) \<and>
     (\<forall>a \<in> set articles. unique_failed a (db w) \<longrightarrow>
        count_list (map url_title (db w')) (url_title a) = 1) \<and>
     (\<forall>a as rows v. unique_failed a rows \<and> sql_error env (length (trace v)) = None \<longrightarrow>
        insert_loop env (a # as) rows v =
        insert_loop env as rows (emit (SqlExecInsert (title a) (url a) (date a)) v))"
proof -
  from saveAllArticles_result[OF assms(2)] assms(1) have
    u: "unique_rows (db w')" and g: "\<exists>new. db w' = db w @ new"
    by auto
  have c: "\<forall>a \<in> set articles. unique_failed a (db w) \<longrightarrow>
        count_list (map url_title (db w')) (url_title a) = 1"
  proof (intro ballI impI)
    fix a
    assume "unique_failed a (db w)"
    then have "url_title a \<in> set (map url_title (db w))" by (simp add: unique_failed_iff)
    with g have "url_title a \<in> set (map url_title (db w'))" by auto
    with u show "count_list (map url_title (db w')) (url_title a) = 1"
      unfolding unique_rows_def by (rule distinct_count_list_1)
  qed
  have s: "\<forall>a as rows v. unique_failed a rows \<and> sql_error env (length (trace v)) = None \<longrightarrow>
        insert_loop env (a # as) rows v =
        insert_loop env as rows (emit (SqlExecInsert (title a) (url a) (date a)) v)"
    using insert_loop_duplicate by blast
  from u g c s show ?thesis by blast
qed

lemmas save_defs = saveAllArticles_def exec_insert_def unique_failed_def sql_call_def emit_def
  start_def row_def

theorem save_pass_keeps_unique_witness:
  "unique_rows (db (start store2)) \<and>
   saveAllArticles env_ok
     [row ''A'' ''https://blog.example/a'' ''2023-02-01'' False,
      row ''N'' ''https://blog.example/n'' ''2023-02-02'' False,
      row ''N'' ''https://blog.example/n'' ''2023-02-03'' False] (start store2) =
     (\<lparr>db = store2 @ [row ''N'' ''https://blog.example/n'' ''2023-02-02'' False],
       trace = [SqlBegin, SqlPrepare,
          SqlExecInsert ''A'' ''https://blog.example/a'' ''2023-02-01'',
          SqlExecInsert ''N'' ''https://blog.example/n'' ''2023-02-02'',
          SqlExecInsert ''N'' ''https://blog.example/n'' ''2023-02-03'',
          SqlCommit]\<rparr>, Inr None) \<and>
   unique_rows (store2 @ [row ''N'' ''https://blog.example/n'' ''2023-02-02'' False]) \<and>
   count_list (map url_title (store2 @ [row ''N'' ''https://blog.example/n'' ''2023-02-02'' False]))
     (''https://blog.example/a'', ''A'') = 1"
proof -
  let ?arts = "[row ''A'' ''https://blog.example/a'' ''2023-02-01'' False,
      row ''N'' ''https://blog.example/n'' ''2023-02-02'' False,
      row ''N'' ''https://blog.example/n'' ''2023-02-03'' False]"
  let ?w' = "\<lparr>db = store2 @ [row ''N'' ''https://blog.example/n'' ''2023-02-02'' False],
       trace = [SqlBegin, SqlPrepare,
          SqlExecInsert ''A'' ''https://blog.example/a'' ''2023-02-01'',
          SqlExecInsert ''N'' ''https://blog.example/n'' ''2023-02-02'',
          SqlExecInsert ''N'' ''https://blog.example/n'' ''2023-02-03'',
          SqlCommit]\<rparr>"
  have u: "unique_rows (db (start store2))"
    by (simp add: unique_rows_def url_title_def start_def store2_def row_def)
  have e: "saveAllArticles env_ok ?arts (start store2) = (?w', Inr None)"
    by (simp add: save_defs env_ok_def store2_def)
  have d: "unique_failed (row ''A'' ''https://blog.example/a'' ''2023-02-01'' False) (db (start store2))"
    by (simp add: unique_failed_def start_def store2_def row_def)
  have k: "url_title (row ''A'' ''https://blog.example/a'' ''2023-02-01'' False)
      = (''https://blog.example/a'', ''A'')"
    by (simp add: url_title_def row_def)
  from save_pass_keeps_unique[OF u e] d have
    "unique_rows (db ?w')"
    "count_list (map url_title (db ?w'))
       (url_title (row ''A'' ''https://blog.example/a'' ''2023-02-01'' False)) = 1"
    by simp_all
  with u e show ?thesis by (simp add: k)
qed

end
